theory Spec2Isabelle
  imports Complex_Main
begin

section \<open>JavaScript values and strings\<close>

text \<open>
  The service and the orchestrator of the application (\<open>extractDataFromImage\<close> and
  \<open>handleImagesSelected\<close>) are embedded as functions on an explicit world. Strings are
  lists of 8-bit characters. A number carries the mathematical value of the double it
  stands for; the two infinities and NaN are separate values.
\<close>

datatype js_number = Finite rat | PosInfinity | NegInfinity | NaN

text \<open>
  What \<open>JSON.parse\<close> can return, and what a field of a thrown object can hold. An
  object lists its keys in the order of their first appearance.
\<close>

datatype jsval =
    JNull
  | JBool bool
  | JNum js_number
  | JStr string
  | JArr "jsval list"
  | JObj "(string \<times> jsval) list"

text \<open>Truthiness, as \<open>||\<close> sees it: null, false, 0, NaN and the empty string are falsy.\<close>

fun truthy :: "jsval \<Rightarrow> bool" where
  "truthy JNull = False"
| "truthy (JBool b) = b"
| "truthy (JNum n) = (n \<noteq> Finite 0 \<and> n \<noteq> NaN)"
| "truthy (JStr s) = (s \<noteq> [])"
| "truthy (JArr xs) = True"
| "truthy (JObj kvs) = True"

text \<open>The key set of a record; a value that is not an object has no keys.\<close>

fun keys :: "jsval \<Rightarrow> string set" where
  "keys (JObj kvs) = set (map fst kvs)"
| "keys v = {}"

subsection \<open>String operations used by the service\<close>

definition startsWith :: "string \<Rightarrow> string \<Rightarrow> bool" where
  "startsWith s p = (take (length p) s = p)"

definition endsWith :: "string \<Rightarrow> string \<Rightarrow> bool" where
  "endsWith s p = (length p \<le> length s \<and> drop (length s - length p) s = p)"

fun includesStr :: "string \<Rightarrow> string \<Rightarrow> bool" where
  "includesStr [] p = (p = [])"
| "includesStr (c # cs) p = (startsWith (c # cs) p \<or> includesStr cs p)"

text \<open>
  \<open>String.prototype.trim\<close> removes white space and line terminators from both ends;
  among 8-bit characters these are tab, line feed, vertical tab, form feed, carriage
  return, space and no-break space.
\<close>

definition isWhiteSpace :: "char \<Rightarrow> bool" where
  "isWhiteSpace c = (of_char c \<in> {9, 10, 11, 12, 13, 32, 160 :: nat})"

definition trim :: "string \<Rightarrow> string" where
  "trim s = rev (dropWhile isWhiteSpace (rev (dropWhile isWhiteSpace s)))"

text \<open>Decimal digits of a number inside a template string.\<close>

fun digits :: "nat \<Rightarrow> string" where
  "digits n = (if n < 10 then [char_of (48 + n)]
               else digits (n div 10) @ [char_of (48 + n mod 10)])"

declare digits.simps [simp del]

subsection \<open>The fence clean-up of the service\<close>

text \<open>
  \<^verbatim>\<open>text.replace(/^```(json)?/, "")\<close>: the three backticks at the start go, and the
  word \<open>json\<close> with them when it follows directly. The replacement is only called on a
  text that starts with the three backticks.
\<close>

definition fence :: string where
  "fence = ''```''"

definition replaceLeadingFence :: "string \<Rightarrow> string" where
  "replaceLeadingFence s =
     (if startsWith s fence
      then (let r = drop 3 s in if startsWith r ''json'' then drop 4 r else r)
      else s)"

text \<open>\<^verbatim>\<open>.replace(/```$/, "")\<close>: three backticks at the very end of the text go.\<close>

definition replaceTrailingFence :: "string \<Rightarrow> string" where
  "replaceTrailingFence s = (if endsWith s fence then take (length s - 3) s else s)"

text \<open>Lines 67 to 70 of the service: trim, and unwrap a text that starts with a fence.\<close>

definition cleanText :: "string \<Rightarrow> string" where
  "cleanText text0 =
     (let text = trim text0
      in if startsWith text fence
         then trim (replaceTrailingFence (replaceLeadingFence text))
         else text)"

section \<open>The JSON parser of the runtime\<close>

text \<open>
  \<open>JSON.parse\<close> belongs to the JavaScript runtime, not to the application, so the
  service below takes the parser as a parameter: a function from the text to the parsed
  value (\<open>Inr\<close>) or to the message of the \<open>SyntaxError\<close> it throws (\<open>Inl\<close>).

  For concrete runs, \<open>JSON_parse\<close> is a recursive-descent parser of the JSON grammar
  (ECMA-404) over 8-bit characters: objects, arrays, strings with the one-letter escapes,
  numbers with fraction and exponent, and the three literals. It leaves out the
  four-digit hexadecimal escapes and the rounding of a number to a double. Its
  recursion is bounded by a fuel of twice the length of the text, every call consuming
  a character.
\<close>

definition jsonWs :: "char \<Rightarrow> bool" where
  "jsonWs c = (of_char c \<in> {9, 10, 13, 32 :: nat})"

definition skipWs :: "string \<Rightarrow> string" where
  "skipWs s = dropWhile jsonWs s"

definition isDigit :: "char \<Rightarrow> bool" where
  "isDigit c = (48 \<le> (of_char c :: nat) \<and> (of_char c :: nat) \<le> 57)"

definition digitsValue :: "string \<Rightarrow> nat" where
  "digitsValue ds = foldl (\<lambda>a c. 10 * a + (of_char c - 48)) 0 ds"

definition unescape :: "char \<Rightarrow> char option" where
  "unescape e =
     (if e = CHR 0x22 \<or> e = CHR 0x5C \<or> e = CHR ''/'' then Some e
      else if e = CHR ''b'' then Some (CHR 0x08)
      else if e = CHR ''f'' then Some (CHR 0x0C)
      else if e = CHR ''n'' then Some (CHR 0x0A)
      else if e = CHR ''r'' then Some (CHR 0x0D)
      else if e = CHR ''t'' then Some (CHR 0x09)
      else None)"

text \<open>The characters of a string after its opening quote, up to the closing quote.\<close>

fun parseChars :: "string \<Rightarrow> (string \<times> string) option" where
  "parseChars [] = None"
| "parseChars (c # cs) =
     (if c = CHR 0x22 then Some ([], cs)
      else if c = CHR 0x5C then
        (case cs of
           [] \<Rightarrow> None
         | e # r \<Rightarrow>
             (case unescape e of
                None \<Rightarrow> None
              | Some d \<Rightarrow>
                  (case parseChars r of
                     None \<Rightarrow> None
                   | Some (s, r') \<Rightarrow> Some (d # s, r'))))
      else if (of_char c :: nat) < 32 then None
      else (case parseChars cs of
              None \<Rightarrow> None
            | Some (s, r) \<Rightarrow> Some (c # s, r)))"

text \<open>
  A number: optional minus, an integer part without leading zeros, an optional fraction,
  an optional exponent.
\<close>

definition parseNumber :: "string \<Rightarrow> (js_number \<times> string) option" where
  "parseNumber s =
     (let neg = (s \<noteq> [] \<and> hd s = CHR ''-'');
          s1 = (if neg then tl s else s);
          ip = (if s1 \<noteq> [] \<and> hd s1 = CHR ''0'' then ''0'' else takeWhile isDigit s1);
          s2 = drop (length ip) s1;
          hasFrac = (s2 \<noteq> [] \<and> hd s2 = CHR ''.'');
          fp = (if hasFrac then takeWhile isDigit (tl s2) else []);
          s3 = (if hasFrac then drop (length fp) (tl s2) else s2);
          hasExp = (s3 \<noteq> [] \<and> (hd s3 = CHR ''e'' \<or> hd s3 = CHR ''E''));
          s4 = (if hasExp then tl s3 else s3);
          eneg = (hasExp \<and> s4 \<noteq> [] \<and> hd s4 = CHR ''-'');
          s5 = (if hasExp \<and> s4 \<noteq> [] \<and> (hd s4 = CHR ''-'' \<or> hd s4 = CHR ''+'')
                then tl s4 else s4);
          ep = (if hasExp then takeWhile isDigit s5 else []);
          s6 = drop (length ep) s5;
          m = (of_nat (digitsValue ip) :: rat)
              + of_nat (digitsValue fp) / 10 ^ length fp;
          x = (if eneg then m / 10 ^ digitsValue ep else m * 10 ^ digitsValue ep)
      in if ip = [] \<or> (hasFrac \<and> fp = []) \<or> (hasExp \<and> ep = []) then None
         else Some (Finite (if neg then - x else x), s6))"

text \<open>A repeated key keeps its first place and takes its last value.\<close>

definition addMember :: "string \<Rightarrow> jsval \<Rightarrow> (string \<times> jsval) list \<Rightarrow> (string \<times> jsval) list" where
  "addMember k v kvs =
     (case map_of kvs k of
        None \<Rightarrow> (k, v) # kvs
      | Some v' \<Rightarrow> (k, v') # filter (\<lambda>kv. fst kv \<noteq> k) kvs)"

fun parseValue :: "nat \<Rightarrow> string \<Rightarrow> (jsval \<times> string) option"
  and parseElements :: "nat \<Rightarrow> string \<Rightarrow> (jsval list \<times> string) option"
  and parseMembers :: "nat \<Rightarrow> string \<Rightarrow> ((string \<times> jsval) list \<times> string) option"
where
  "parseValue 0 s = None"
| "parseValue (Suc n) s =
     (let t = skipWs s
      in if t = [] then None
         else if hd t = CHR ''{'' then
           (let u = skipWs (tl t)
            in if u \<noteq> [] \<and> hd u = CHR ''}'' then Some (JObj [], tl u)
               else (case parseMembers n u of
                       None \<Rightarrow> None
                     | Some (kvs, r) \<Rightarrow> Some (JObj kvs, r)))
         else if hd t = CHR ''['' then
           (let u = skipWs (tl t)
            in if u \<noteq> [] \<and> hd u = CHR '']'' then Some (JArr [], tl u)
               else (case parseElements n u of
                       None \<Rightarrow> None
                     | Some (vs, r) \<Rightarrow> Some (JArr vs, r)))
         else if hd t = CHR 0x22 then
           (case parseChars (tl t) of
              None \<Rightarrow> None
            | Some (str, r) \<Rightarrow> Some (JStr str, r))
         else if startsWith t ''true'' then Some (JBool True, drop 4 t)
         else if startsWith t ''false'' then Some (JBool False, drop 5 t)
         else if startsWith t ''null'' then Some (JNull, drop 4 t)
         else (case parseNumber t of
                 None \<Rightarrow> None
               | Some (x, r) \<Rightarrow> Some (JNum x, r)))"
| "parseElements 0 s = None"
| "parseElements (Suc n) s =
     (case parseValue n s of
        None \<Rightarrow> None
      | Some (v, r) \<Rightarrow>
          (let t = skipWs r
           in if t \<noteq> [] \<and> hd t = CHR '','' then
                (case parseElements n (tl t) of
                   None \<Rightarrow> None
                 | Some (vs, r') \<Rightarrow> Some (v # vs, r'))
              else if t \<noteq> [] \<and> hd t = CHR '']'' then Some ([v], tl t)
              else None))"
| "parseMembers 0 s = None"
| "parseMembers (Suc n) s =
     (let t = skipWs s
      in if t \<noteq> [] \<and> hd t = CHR 0x22 then
           (case parseChars (tl t) of
              None \<Rightarrow> None
            | Some (k, r) \<Rightarrow>
                (let u = skipWs r
                 in if u \<noteq> [] \<and> hd u = CHR '':'' then
                      (case parseValue n (tl u) of
                         None \<Rightarrow> None
                       | Some (v, r') \<Rightarrow>
                           (let x = skipWs r'
                            in if x \<noteq> [] \<and> hd x = CHR '','' then
                                 (case parseMembers n (tl x) of
                                    None \<Rightarrow> None
                                  | Some (kvs, r'') \<Rightarrow> Some (addMember k v kvs, r''))
                               else if x \<noteq> [] \<and> hd x = CHR ''}'' then Some ([(k, v)], tl x)
                               else None))
                    else None))
         else None)"

text \<open>
  The message of the \<open>SyntaxError\<close> is worded by the engine. This is the wording of V8
  (Chrome, Node) for a text whose first token cannot start a JSON value: it names the
  character and quotes the text, the whole text when it has fewer than 21 characters and
  otherwise ten characters on each side of the character, with dots where the text is
  cut; four texts are quoted without a character. For a fault further in the text V8 has
  other wordings, most of them with the position in place of the text, and other
  engines word every fault differently; the function below gives all faults the wording
  of the first token.
\<close>

definition quoted :: "string \<Rightarrow> string" where
  "quoted s = [CHR 0x22] @ s @ [CHR 0x22]"

definition syntaxErrorMessage :: "string \<Rightarrow> string" where
  "syntaxErrorMessage text =
     (let pos = length (takeWhile jsonWs text)
      in case skipWs text of
           [] \<Rightarrow> ''Unexpected end of JSON input''
         | c # cs \<Rightarrow>
             if text = ''undefined'' \<or> text = ''NaN'' \<or> text = ''Infinity''
                \<or> text = ''[object Object]''
             then quoted text @ '' is not valid JSON''
             else ''Unexpected token '' @ [CHR 0x27, c, CHR 0x27] @ '', ''
                  @ (if length text < 21 then quoted text
                     else if pos < 10 then quoted (take (pos + 10) text) @ ''...''
                     else if pos < length text - 10
                       then ''...'' @ quoted (take 20 (drop (pos - 10) text)) @ ''...''
                     else ''...'' @ quoted (drop (pos - 10) text))
                  @ '' is not valid JSON'')"

definition JSON_parse :: "string \<Rightarrow> string + jsval" where
  "JSON_parse text =
     (case parseValue (2 * length text + 2) text of
        None \<Rightarrow> Inl (syntaxErrorMessage text)
      | Some (v, r) \<Rightarrow> if skipWs r = [] then Inr v else Inl (syntaxErrorMessage text))"

section \<open>The environment and the world\<close>

text \<open>
  A thrown value, as the \<open>catch\<close> clause of the service reads it: whether it is an
  instance of \<open>SyntaxError\<close>, and its \<open>status\<close>, \<open>code\<close> and \<open>message\<close>
  properties (\<open>None\<close> where the property is undefined).
\<close>

record js_error =
  isSyntaxError :: bool
  errStatus :: "jsval option"
  errCode :: "jsval option"
  errMessage :: "string option"

text \<open>
  How an awaited \<open>ai.models.generateContent\<close> ends: with a response, of which the
  service reads \<open>response.text\<close> (a string or undefined), or with a thrown value.
\<close>

datatype outcome = Resolves "string option" | Rejects js_error

datatype ExtractionStatus = IDLE | PROCESSING | SUCCESS | ERROR

record ProcessingState =
  status :: ExtractionStatus
  message :: "string option"

record TableRow =
  idRow :: string
  data :: jsval
  sourceImageName :: string
  timestamp :: string

record image =
  base64 :: string
  fileName :: string

text \<open>
  The effects of a run, in the order in which they happen: a request sent to the model
  (the image and the header list that the prompt is built from), an awaited timer, a
  status update, a row appended to the table, and a timer that is set and not awaited.
  Console output is not recorded.
\<close>

datatype event =
    GenerateContent string "string list"
  | Wait nat
  | SetProcessingState ProcessingState
  | SetRows TableRow
  | SetTimeout nat ProcessingState

text \<open>
  What the run reads from outside: the parser, the answers of the remote model, the
  random identifiers and the clock. Each reading is indexed by the number of effects
  that precede it, so an answer may depend on all that has happened before.
\<close>

record env =
  jsonParse :: "string \<Rightarrow> string + jsval"
  generateContent :: "nat \<Rightarrow> string \<Rightarrow> string list \<Rightarrow> outcome"
  generateId :: "nat \<Rightarrow> string"
  toISOString :: "nat \<Rightarrow> string"

record world =
  rows :: "TableRow list"
  processingState :: ProcessingState
  log :: "event list"

definition emit :: "event \<Rightarrow> world \<Rightarrow> world" where
  "emit e w = w\<lparr>log := log w @ [e]\<rparr>"

definition wait :: "nat \<Rightarrow> world \<Rightarrow> world" where
  "wait ms w = emit (Wait ms) w"

definition setProcessingState :: "ProcessingState \<Rightarrow> world \<Rightarrow> world" where
  "setProcessingState s w = emit (SetProcessingState s) (w\<lparr>processingState := s\<rparr>)"

text \<open>\<^verbatim>\<open>setRows(prev => [...prev, newRow])\<close>\<close>

definition setRows :: "TableRow \<Rightarrow> world \<Rightarrow> world" where
  "setRows newRow w = emit (SetRows newRow) (w\<lparr>rows := rows w @ [newRow]\<rparr>)"

section \<open>The extraction service\<close>

definition maxRetries :: nat where
  "maxRetries = 5"

definition noDataError :: js_error where
  "noDataError =
     \<lparr>isSyntaxError = False, errStatus = None, errCode = None,
      errMessage = Some ''No data returned from AI''\<rparr>"

definition parseFailureError :: js_error where
  "parseFailureError =
     \<lparr>isSyntaxError = False, errStatus = None, errCode = None,
      errMessage = Some ''Failed to parse the AI response as valid JSON. Please try again.''\<rparr>"

definition syntaxError :: "string \<Rightarrow> js_error" where
  "syntaxError m =
     \<lparr>isSyntaxError = True, errStatus = None, errCode = None, errMessage = Some m\<rparr>"

text \<open>
  Lines 63 to 79, the rest of the \<open>try\<close> block once the response has arrived: no text
  throws, the text is cleaned and parsed, and of a list the first element is returned,
  or the empty object when \<open>data[0]\<close> is undefined or falsy.
\<close>

definition readResponse :: "(string \<Rightarrow> string + jsval) \<Rightarrow> string option \<Rightarrow> js_error + jsval" where
  "readResponse parse response_text =
     (case response_text of
        None \<Rightarrow> Inl noDataError
      | Some text \<Rightarrow>
          if text = [] then Inl noDataError
          else (case parse (cleanText text) of
                  Inl m \<Rightarrow> Inl (syntaxError m)
                | Inr (JArr xs) \<Rightarrow>
                    Inr (case xs of
                           [] \<Rightarrow> JObj []
                         | x # rest \<Rightarrow> if truthy x then x else JObj [])
                | Inr d \<Rightarrow> Inr d))"

text \<open>The whole \<open>try\<close> block: what the request to the model brings.\<close>

definition tryBlock :: "env \<Rightarrow> string \<Rightarrow> string list \<Rightarrow> world \<Rightarrow> js_error + jsval" where
  "tryBlock env base64Image existingHeaders w =
     (case generateContent env (length (log w)) base64Image existingHeaders of
        Rejects e \<Rightarrow> Inl e
      | Resolves response_text \<Rightarrow> readResponse (jsonParse env) response_text)"

definition is429 :: "jsval option \<Rightarrow> bool" where
  "is429 v = (v = Some (JNum (Finite 429)))"

definition isRateLimit :: "js_error \<Rightarrow> bool" where
  "isRateLimit error =
     (is429 (errStatus error) \<or> is429 (errCode error) \<or>
      (case errMessage error of
         None \<Rightarrow> False
       | Some m \<Rightarrow> m \<noteq> [] \<and> includesStr m ''429''))"

text \<open>The last lines of the \<open>catch\<close> clause: what is thrown to the caller.\<close>

definition rethrow :: "js_error \<Rightarrow> js_error" where
  "rethrow error = (if isSyntaxError error then parseFailureError else error)"

text \<open>The \<open>while (true)\<close> loop, with the local variable \<open>attempt\<close> as an argument.\<close>

function retryLoop ::
  "env \<Rightarrow> string \<Rightarrow> string list \<Rightarrow> nat \<Rightarrow> world \<Rightarrow> (js_error + jsval) \<times> world" where
  "retryLoop env base64Image existingHeaders attempt w =
     (let w1 = emit (GenerateContent base64Image existingHeaders) w
      in case tryBlock env base64Image existingHeaders w of
           Inr d \<Rightarrow> (Inr d, w1)
         | Inl error \<Rightarrow>
             if isRateLimit error \<and> attempt < maxRetries
             then (let attempt' = attempt + 1;
                       delay = 2 ^ (attempt' + 1) * 1000
                   in retryLoop env base64Image existingHeaders attempt' (wait delay w1))
             else (Inl (rethrow error), w1))"
  by pat_completeness auto

termination
  by (relation "measure (\<lambda>(env, b, hs, attempt, w). maxRetries - attempt)") auto

declare retryLoop.simps [simp del]

definition extractDataFromImage ::
  "env \<Rightarrow> string \<Rightarrow> string list \<Rightarrow> world \<Rightarrow> (js_error + jsval) \<times> world" where
  "extractDataFromImage env base64Image existingHeaders w =
     retryLoop env base64Image existingHeaders 0 w"

section \<open>The batch orchestrator\<close>

text \<open>
  A turn of the \<open>for\<close> loop of \<open>handleImagesSelected\<close> works on the local variables
  \<open>processedCount\<close> and \<open>errors\<close> and on the world. The loop only reads \<open>images[i]\<close>
  for \<open>i\<close> below the length.
\<close>

definition processingMessage :: "nat \<Rightarrow> nat \<Rightarrow> string \<Rightarrow> string" where
  "processingMessage i n name =
     ''Processing '' @ digits (i + 1) @ '' of '' @ digits n @ '': '' @ name"

definition announce :: "image list \<Rightarrow> nat \<Rightarrow> world \<Rightarrow> world" where
  "announce images i w =
     setProcessingState
       \<lparr>status = PROCESSING,
        message = Some (processingMessage i (length images) (fileName (images ! i)))\<rparr> w"

text \<open>Lines 144 to 166: the status line, the call of the service, the row or the failure.\<close>

definition processImage ::
  "env \<Rightarrow> string list \<Rightarrow> image list \<Rightarrow> nat \<Rightarrow> nat \<times> string list \<times> world
     \<Rightarrow> nat \<times> string list \<times> world" where
  "processImage env headers images i st =
     (case st of (processedCount, errors, w) \<Rightarrow>
        (let img = images ! i;
             w1 = announce images i w
         in case extractDataFromImage env (base64 img) headers w1 of
              (Inr newData, w2) \<Rightarrow>
                (let newRow =
                       \<lparr>idRow = generateId env (length (log w2)), data = newData,
                        sourceImageName = fileName img,
                        timestamp = toISOString env (length (log w2))\<rparr>
                 in (processedCount + 1, errors, setRows newRow w2))
            | (Inl error, w2) \<Rightarrow> (processedCount, errors @ [fileName img], w2)))"

text \<open>The whole turn: lines 168 to 173 add the pause, unless the image is the last.\<close>

definition loopBody ::
  "env \<Rightarrow> string list \<Rightarrow> image list \<Rightarrow> nat \<Rightarrow> nat \<times> string list \<times> world
     \<Rightarrow> nat \<times> string list \<times> world" where
  "loopBody env headers images i st =
     (case processImage env headers images i st of
        (processedCount, errors, w3) \<Rightarrow>
          (processedCount, errors, if i < length images - 1 then wait 5000 w3 else w3))"

function forLoop ::
  "env \<Rightarrow> string list \<Rightarrow> image list \<Rightarrow> nat \<Rightarrow> nat \<times> string list \<times> world
     \<Rightarrow> nat \<times> string list \<times> world" where
  "forLoop env headers images i st =
     (if i < length images
      then forLoop env headers images (i + 1) (loopBody env headers images i st)
      else st)"
  by pat_completeness auto

termination
  by (relation "measure (\<lambda>(env, headers, images, i, st). length images - i)") auto

declare forLoop.simps [simp del]

definition successMessage :: "nat \<Rightarrow> nat \<Rightarrow> nat \<Rightarrow> string" where
  "successMessage processedCount n failed =
     ''Successfully processed '' @ digits processedCount @ '' of '' @ digits n
       @ '' images''
       @ (if failed > 0 then '' ('' @ digits failed @ '' failed)'' else [])
       @ ''.''"

definition idleState :: ProcessingState where
  "idleState = \<lparr>status = IDLE, message = None\<rparr>"

definition startProcessing :: "image list \<Rightarrow> world \<Rightarrow> world" where
  "startProcessing images w =
     setProcessingState
       \<lparr>status = PROCESSING,
        message = Some (''Starting processing of '' @ digits (length images)
                         @ '' image(s)...'')\<rparr> w"

definition handleImagesSelected :: "env \<Rightarrow> string list \<Rightarrow> image list \<Rightarrow> world \<Rightarrow> world" where
  "handleImagesSelected env headers images w =
     (if length images = 0 then w
      else
        (let w1 = startProcessing images w
         in case forLoop env headers images 0 (0, [], w1) of
              (processedCount, errors, w2) \<Rightarrow>
                (let w3 =
                       (if processedCount > 0
                        then setProcessingState
                               \<lparr>status = SUCCESS,
                                message = Some (successMessage processedCount (length images)
                                                  (length errors))\<rparr> w2
                        else setProcessingState
                               \<lparr>status = ERROR,
                                message = Some ''Failed to process selected images.''\<rparr> w2)
                 in emit (SetTimeout 4000 idleState) w3)))"

section \<open>Notions used to state the properties\<close>

text \<open>\<open>Array.isArray\<close>\<close>

fun isArray :: "jsval \<Rightarrow> bool" where
  "isArray (JArr xs) = True"
| "isArray v = False"

text \<open>A remote call that fails as rate limited: it throws, and the thrown value passes
  the test of the \<open>catch\<close> clause.\<close>

definition rateLimited :: "outcome \<Rightarrow> bool" where
  "rateLimited out = (case out of Rejects e \<Rightarrow> isRateLimit e | Resolves t \<Rightarrow> False)"

text \<open>The value that a failed call throws. The second equation is never used: the
  function is only applied to calls that fail.\<close>

fun thrownValue :: "outcome \<Rightarrow> js_error" where
  "thrownValue (Rejects e) = e"
| "thrownValue (Resolves t) = noDataError"

text \<open>The images of the requests in a list of events, in order.\<close>

fun requests :: "event list \<Rightarrow> string list" where
  "requests [] = []"
| "requests (GenerateContent b hs # es) = b # requests es"
| "requests (e # es) = requests es"

text \<open>
  The state of the loop after its first \<open>k\<close> turns, and with it the run of a batch:
  the state in which the turn of image \<open>k\<close> starts, and what the service returns or
  throws for image \<open>i\<close> in that run.
\<close>

fun stateAfter ::
  "env \<Rightarrow> string list \<Rightarrow> image list \<Rightarrow> nat \<times> string list \<times> world \<Rightarrow> nat
     \<Rightarrow> nat \<times> string list \<times> world" where
  "stateAfter env headers images st 0 = st"
| "stateAfter env headers images st (Suc k) =
     loopBody env headers images k (stateAfter env headers images st k)"

definition turnState ::
  "env \<Rightarrow> string list \<Rightarrow> image list \<Rightarrow> world \<Rightarrow> nat \<Rightarrow> nat \<times> string list \<times> world" where
  "turnState env headers images w k =
     stateAfter env headers images (0, [], startProcessing images w) k"

definition extraction ::
  "env \<Rightarrow> string list \<Rightarrow> image list \<Rightarrow> world \<Rightarrow> nat \<Rightarrow> js_error + jsval" where
  "extraction env headers images w i =
     fst (extractDataFromImage env (base64 (images ! i)) headers
            (announce images i (snd (snd (turnState env headers images w i)))))"

text \<open>The positions of the batch at which the extraction fails, and those at which it
  succeeds, in increasing order.\<close>

definition failedAt :: "env \<Rightarrow> string list \<Rightarrow> image list \<Rightarrow> world \<Rightarrow> nat list" where
  "failedAt env headers images w =
     filter (\<lambda>i. isl (extraction env headers images w i)) [0..<length images]"

definition succeededAt :: "env \<Rightarrow> string list \<Rightarrow> image list \<Rightarrow> world \<Rightarrow> nat list" where
  "succeededAt env headers images w =
     filter (\<lambda>i. \<not> isl (extraction env headers images w i)) [0..<length images]"

text \<open>
  The events of a run of the service that makes \<open>n\<close> retries, the first of them counted
  from attempt \<open>a\<close>: each failed request is followed by its wait, and the last request
  ends the run.
\<close>

fun backoffEvents :: "string \<Rightarrow> string list \<Rightarrow> nat \<Rightarrow> nat \<Rightarrow> event list" where
  "backoffEvents b hs a 0 = [GenerateContent b hs]"
| "backoffEvents b hs a (Suc n) =
     GenerateContent b hs # Wait (2 ^ (a + 2) * 1000) # backoffEvents b hs (a + 1) n"

text \<open>The status shown while image \<open>i\<close> is processed, and the status shown at the end.\<close>

definition announcement :: "image list \<Rightarrow> nat \<Rightarrow> ProcessingState" where
  "announcement images i =
     \<lparr>status = PROCESSING,
      message = Some (processingMessage i (length images) (fileName (images ! i)))\<rparr>"

definition finalState :: "nat \<Rightarrow> nat \<Rightarrow> nat \<Rightarrow> ProcessingState" where
  "finalState processedCount n failed =
     (if processedCount > 0
      then \<lparr>status = SUCCESS, message = Some (successMessage processedCount n failed)\<rparr>
      else \<lparr>status = ERROR, message = Some ''Failed to process selected images.''\<rparr>)"

text \<open>
  A pass of the retry loop that is retried, told by the step at which it makes its
  request: the request is rejected, or its response makes the \<open>try\<close> block throw,
  and the \<open>catch\<close> clause takes the thrown value for a rate limit. The pass after
  \<open>k\<close> retried ones makes its request two steps after the one before, a request and a
  wait later.
\<close>

definition retriedAt :: "env \<Rightarrow> string \<Rightarrow> string list \<Rightarrow> nat \<Rightarrow> bool" where
  "retriedAt env b hs n =
     (case generateContent env n b hs of
        Rejects e \<Rightarrow> isRateLimit e
      | Resolves t \<Rightarrow>
          (case readResponse (jsonParse env) t of
             Inl e \<Rightarrow> isRateLimit e
           | Inr d \<Rightarrow> False))"

text \<open>
  A language tag after the opening fence: a run of characters without blanks and
  backticks, which may be empty. Of such a tag the clean-up removes the word \<open>json\<close>
  at its start, and nothing else.
\<close>

definition isLanguageTag :: "string \<Rightarrow> bool" where
  "isLanguageTag tag = list_all (\<lambda>c. \<not> isWhiteSpace c \<and> c \<noteq> CHR ''`'') tag"

definition restOfTag :: "string \<Rightarrow> string" where
  "restOfTag tag = (if startsWith tag ''json'' then drop 4 tag else tag)"

subsection \<open>A concrete environment for the examples\<close>

text \<open>
  The remote model answers each image in a fixed way, whatever came before; the parser
  is \<open>JSON_parse\<close>; identifiers and time stamps are the number of the step.
\<close>

definition exampleEnv :: "(string \<Rightarrow> outcome) \<Rightarrow> env" where
  "exampleEnv reply =
     \<lparr>jsonParse = JSON_parse, generateContent = (\<lambda>k b hs. reply b),
      generateId = (\<lambda>k. ''id'' @ digits k), toISOString = (\<lambda>k. ''t'' @ digits k)\<rparr>"

definition emptyWorld :: world where
  "emptyWorld = \<lparr>rows = [], processingState = idleState, log = []\<rparr>"

definition tooManyRequests :: js_error where
  "tooManyRequests =
     \<lparr>isSyntaxError = False, errStatus = Some (JNum (Finite 429)), errCode = None,
      errMessage = Some ''Resource has been exhausted''\<rparr>"

text \<open>A batch of three images, and two ways in which the second one fails: the model
  answers with prose, or every request for it is refused as a rate limit.\<close>

definition threeImages :: "image list" where
  "threeImages =
     [\<lparr>base64 = ''AAAA'', fileName = ''a.png''\<rparr>,
      \<lparr>base64 = ''BBBB'', fileName = ''b.png''\<rparr>,
      \<lparr>base64 = ''CCCC'', fileName = ''c.png''\<rparr>]"

definition secondUnreadable :: "string \<Rightarrow> outcome" where
  \<open>secondUnreadable b =
     (if b = ''BBBB'' then Resolves (Some ''Sorry, I cannot read this.'')
      else Resolves (Some ''{"a":1}''))\<close>

definition secondLimited :: "string \<Rightarrow> outcome" where
  \<open>secondLimited b =
     (if b = ''BBBB'' then Rejects tooManyRequests else Resolves (Some ''{"a":1}''))\<close>

text \<open>
  A model that refuses every request made before step \<open>m\<close> as a rate limit and
  gives the same answer from then on, and a batch of one image.
\<close>

definition lateAnswer :: "nat \<Rightarrow> string \<Rightarrow> env" where
  "lateAnswer m answer =
     \<lparr>jsonParse = JSON_parse,
      generateContent =
        (\<lambda>n b hs. if n < m then Rejects tooManyRequests else Resolves (Some answer)),
      generateId = (\<lambda>k. ''id'' @ digits k), toISOString = (\<lambda>k. ''t'' @ digits k)\<rparr>"

definition oneImage :: "image list" where
  "oneImage = [\<lparr>base64 = ''AAAA'', fileName = ''a.png''\<rparr>]"

section \<open>Properties of the extraction service\<close>

lemma log_emit [simp]: "log (emit e w) = log w @ [e]"
  and rows_emit [simp]: "rows (emit e w) = rows w"
  and processingState_emit [simp]: "processingState (emit e w) = processingState w"
  by (simp_all add: emit_def)

lemma log_wait [simp]: "log (wait ms w) = log w @ [Wait ms]"
  and rows_wait [simp]: "rows (wait ms w) = rows w"
  and processingState_wait [simp]: "processingState (wait ms w) = processingState w"
  by (simp_all add: wait_def)

lemma exampleEnv_sel [simp]:
  "jsonParse (exampleEnv reply) = JSON_parse"
  "generateContent (exampleEnv reply) k b hs = reply b"
  by (simp_all add: exampleEnv_def)

lemma lateAnswer_sel [simp]:
  "jsonParse (lateAnswer m answer) = JSON_parse"
  "generateContent (lateAnswer m answer) n b hs =
     (if n < m then Rejects tooManyRequests else Resolves (Some answer))"
  by (simp_all add: lateAnswer_def)

lemma emptyWorld_sel: "rows emptyWorld = []" "log emptyWorld = []"
  by (simp_all add: emptyWorld_def)

lemma tooManyRequests_limited: "isRateLimit tooManyRequests"
  by (simp add: isRateLimit_def is429_def tooManyRequests_def)

lemma lateAnswer_retried: "n < m \<Longrightarrow> retriedAt (lateAnswer m answer) b hs n"
  by (simp add: retriedAt_def tooManyRequests_limited)

lemma backoffEvents_2:
  "backoffEvents b hs 0 2 =
     [GenerateContent b hs, Wait 4000, GenerateContent b hs, Wait 8000, GenerateContent b hs]"
  by (simp add: numeral_2_eq_2)

subsection \<open>One turn of the retry loop\<close>

lemma first_answer:
  assumes "generateContent env (length (log w)) b hs = Resolves t"
    and "readResponse (jsonParse env) t = Inr v"
  shows "extractDataFromImage env b hs w = (Inr v, emit (GenerateContent b hs) w)"
  using assms
  by (simp add: extractDataFromImage_def retryLoop.simps [of env b hs 0 w] tryBlock_def)

lemma retry_again:
  assumes "tryBlock env b hs w = Inl e" and "isRateLimit e" and "attempt < 5"
    and "attempt' = attempt + 1" and "delay = 2 ^ (attempt + 2) * 1000"
  shows "retryLoop env b hs attempt w =
           retryLoop env b hs attempt' (wait delay (emit (GenerateContent b hs) w))"
  using assms by (subst retryLoop.simps) (simp add: maxRetries_def Let_def)

lemma retry_stop:
  assumes "tryBlock env b hs w = Inl e" and "\<not> isRateLimit e \<or> attempt = 5"
  shows "retryLoop env b hs attempt w = (Inl (rethrow e), emit (GenerateContent b hs) w)"
  using assms by (subst retryLoop.simps) (auto simp: maxRetries_def Let_def)

text \<open>
  When every pass through the \<open>try\<close> block ends in a value that the \<open>catch\<close> clause
  takes for a rate limit, the loop runs its six passes.
\<close>

lemma backoff_run:
  assumes fails: "\<And>v. tryBlock env b hs v = Inl (err v)"
    and limited: "\<And>v. isRateLimit (err v)"
  shows "extractDataFromImage env b hs w =
           (Inl (rethrow (err (w\<lparr>log := log w @
               [GenerateContent b hs, Wait 4000, GenerateContent b hs, Wait 8000,
                GenerateContent b hs, Wait 16000, GenerateContent b hs, Wait 32000,
                GenerateContent b hs, Wait 64000]\<rparr>))),
            w\<lparr>log := log w @
               [GenerateContent b hs, Wait 4000, GenerateContent b hs, Wait 8000,
                GenerateContent b hs, Wait 16000, GenerateContent b hs, Wait 32000,
                GenerateContent b hs, Wait 64000, GenerateContent b hs]\<rparr>)"
proof -
  let ?c = "GenerateContent b hs"
  define w1 where "w1 = wait 4000 (emit ?c w)"
  define w2 where "w2 = wait 8000 (emit ?c w1)"
  define w3 where "w3 = wait 16000 (emit ?c w2)"
  define w4 where "w4 = wait 32000 (emit ?c w3)"
  define w5 where "w5 = wait 64000 (emit ?c w4)"
  have "retryLoop env b hs 0 w = retryLoop env b hs 1 w1"
    unfolding w1_def by (rule retry_again [OF fails limited]) simp_all
  also have "\<dots> = retryLoop env b hs 2 w2"
    unfolding w2_def by (rule retry_again [OF fails limited]) simp_all
  also have "\<dots> = retryLoop env b hs 3 w3"
    unfolding w3_def by (rule retry_again [OF fails limited]) simp_all
  also have "\<dots> = retryLoop env b hs 4 w4"
    unfolding w4_def by (rule retry_again [OF fails limited]) simp_all
  also have "\<dots> = retryLoop env b hs 5 w5"
    unfolding w5_def by (rule retry_again [OF fails limited]) simp_all
  also have "\<dots> = (Inl (rethrow (err w5)), emit ?c w5)"
    by (rule retry_stop [OF fails]) simp
  finally have run: "retryLoop env b hs 0 w = (Inl (rethrow (err w5)), emit ?c w5)" .
  have before: "w5 = w\<lparr>log := log w @
      [?c, Wait 4000, ?c, Wait 8000, ?c, Wait 16000, ?c, Wait 32000, ?c, Wait 64000]\<rparr>"
    by (simp add: w5_def w4_def w3_def w2_def w1_def emit_def wait_def)
  have final: "emit ?c w5 = w\<lparr>log := log w @
      [?c, Wait 4000, ?c, Wait 8000, ?c, Wait 16000, ?c, Wait 32000, ?c, Wait 64000, ?c]\<rparr>"
    by (simp add: w5_def w4_def w3_def w2_def w1_def emit_def wait_def)
  show ?thesis
    using run final before by (simp add: extractDataFromImage_def)
qed

text \<open>
  A response that the \<open>try\<close> block turns into a value ends the loop at whatever pass
  it arrives: at the first, or after \<open>k\<close> passes that were retried.
\<close>

lemma retriedAt_tryBlock:
  "retriedAt env b hs (length (log w)) \<Longrightarrow> \<exists>e. tryBlock env b hs w = Inl e \<and> isRateLimit e"
  by (auto simp: retriedAt_def tryBlock_def split: outcome.splits sum.splits)

lemma retryLoop_answer:
  assumes "generateContent env (length (log w)) b hs = Resolves t"
    and "readResponse (jsonParse env) t = Inr v"
  shows "retryLoop env b hs attempt w = (Inr v, emit (GenerateContent b hs) w)"
  using assms by (subst retryLoop.simps) (simp add: tryBlock_def)

lemma retryLoop_after_retries:
  assumes "attempt + k \<le> 5"
    and "\<forall>j<k. retriedAt env b hs (length (log w) + 2 * j)"
    and "generateContent env (length (log w) + 2 * k) b hs = Resolves t"
    and "readResponse (jsonParse env) t = Inr v"
  shows "retryLoop env b hs attempt w =
           (Inr v, w\<lparr>log := log w @ backoffEvents b hs attempt k\<rparr>)"
  using assms
proof (induction k arbitrary: attempt w)
  case 0
  then show ?case
    using retryLoop_answer [of env w b hs t v attempt] by (simp add: emit_def)
next
  case (Suc k)
  let ?w' = "wait (2 ^ (attempt + 2) * 1000) (emit (GenerateContent b hs) w)"
  have "retriedAt env b hs (length (log w))"
    using Suc.prems(2) by (metis add.right_neutral mult_0_right zero_less_Suc)
  then obtain e where e: "tryBlock env b hs w = Inl e" "isRateLimit e"
    using retriedAt_tryBlock by blast
  have step: "retryLoop env b hs attempt w = retryLoop env b hs (attempt + 1) ?w'"
    using Suc.prems(1) by (intro retry_again [OF e]) simp_all
  have len: "length (log ?w') = length (log w) + 2" by simp
  have later: "\<forall>j<k. retriedAt env b hs (length (log ?w') + 2 * j)"
  proof (intro allI impI)
    fix j assume "j < k"
    then have "Suc j < Suc k" by simp
    then have "retriedAt env b hs (length (log w) + 2 * Suc j)"
      using Suc.prems(2) by blast
    then show "retriedAt env b hs (length (log ?w') + 2 * j)"
      by (simp add: len add.assoc)
  qed
  have answer: "generateContent env (length (log ?w') + 2 * k) b hs = Resolves t"
    using Suc.prems(3) by (simp add: len add.assoc)
  have "retryLoop env b hs (attempt + 1) ?w' =
          (Inr v, ?w'\<lparr>log := log ?w' @ backoffEvents b hs (attempt + 1) k\<rparr>)"
    using Suc.IH [of "attempt + 1" ?w', OF _ later answer Suc.prems(4)] Suc.prems(1) by simp
  then show ?case
    unfolding step by (simp add: emit_def wait_def)
qed

lemma response_after_retries:
  assumes "k \<le> 5"
    and "\<forall>j<k. retriedAt env b hs (length (log w) + 2 * j)"
    and "generateContent env (length (log w) + 2 * k) b hs = Resolves t"
    and "readResponse (jsonParse env) t = Inr v"
  shows "extractDataFromImage env b hs w =
           (Inr v, w\<lparr>log := log w @ backoffEvents b hs 0 k\<rparr>)"
  unfolding extractDataFromImage_def
  using retryLoop_after_retries [of 0 k env b hs w t v] assms by simp

subsection \<open>Back-off on rate limits\<close>

text \<open>
  C1. When every call to the remote model fails as rate limited, the service sends the
  request six times, waits 4000, 8000, 16000, 32000 and 64000 ms before the five
  retries, and after the sixth failure throws without a further wait or request. What
  it throws is the value of the sixth failure, the one read at step \<open>length (log w) + 10\<close>
  (replaced by the parse-failure error in the one case that this value is an instance
  of \<open>SyntaxError\<close>, as \<open>rethrow\<close> says).
\<close>

theorem rate_limited_backoff:
  assumes "\<forall>k. rateLimited (generateContent env k base64Image headers)"
  shows "extractDataFromImage env base64Image headers w =
           (Inl (rethrow (thrownValue
                   (generateContent env (length (log w) + 10) base64Image headers))),
            w\<lparr>log := log w @
               [GenerateContent base64Image headers, Wait 4000,
                GenerateContent base64Image headers, Wait 8000,
                GenerateContent base64Image headers, Wait 16000,
                GenerateContent base64Image headers, Wait 32000,
                GenerateContent base64Image headers, Wait 64000,
                GenerateContent base64Image headers]\<rparr>)"
proof -
  define err where
    "err v = thrownValue (generateContent env (length (log v)) base64Image headers)"
    for v :: world
  have lim: "rateLimited (generateContent env (length (log v)) base64Image headers)" for v
    using assms by simp
  have fails: "tryBlock env base64Image headers v = Inl (err v)" for v
    using lim [of v] by (auto simp: tryBlock_def rateLimited_def err_def split: outcome.splits)
  have limited: "isRateLimit (err v)" for v
    using lim [of v] by (auto simp: rateLimited_def err_def split: outcome.splits)
  have ten: "Suc (Suc (Suc (Suc (Suc (Suc (Suc (Suc (Suc (Suc n))))))))) = n + 10" for n
    by simp
  show ?thesis
    using backoff_run [of env base64Image headers err w, OF fails limited]
    by (simp add: err_def ten)
qed

theorem rate_limited_backoff_witness:
  "(\<forall>k. rateLimited
          (generateContent (exampleEnv (\<lambda>b. Rejects tooManyRequests)) k ''img'' [''date'']))
   \<and> extractDataFromImage (exampleEnv (\<lambda>b. Rejects tooManyRequests)) ''img'' [''date'']
         emptyWorld =
       (Inl tooManyRequests,
        emptyWorld\<lparr>log :=
               [GenerateContent ''img'' [''date''], Wait 4000,
                GenerateContent ''img'' [''date''], Wait 8000,
                GenerateContent ''img'' [''date''], Wait 16000,
                GenerateContent ''img'' [''date''], Wait 32000,
                GenerateContent ''img'' [''date''], Wait 64000,
                GenerateContent ''img'' [''date'']]\<rparr>)"
proof -
  have h: "\<forall>k. rateLimited
             (generateContent (exampleEnv (\<lambda>b. Rejects tooManyRequests)) k ''img'' [''date''])"
    by (simp add: rateLimited_def isRateLimit_def is429_def tooManyRequests_def)
  show ?thesis
    using h rate_limited_backoff [OF h, of emptyWorld]
    by (simp add: emptyWorld_def rethrow_def tooManyRequests_def)
qed

subsection \<open>What is returned for a parsed response\<close>

text \<open>
  C10. Take any response that the service receives: the first one (\<open>k = 0\<close>), or the
  one that follows \<open>k\<close> retried passes, of which there are at most five. When its text,
  cleaned as the service cleans it, parses to a value that is not a list, the service
  returns that value as it is and throws nothing. This holds for a bare number or a
  quoted string as for an object, so a successful extraction need not return a
  key-value record.
\<close>

theorem non_list_value_returned_as_is:
  assumes "k \<le> 5"
    and "\<forall>j<k. retriedAt env base64Image headers (length (log w) + 2 * j)"
    and "generateContent env (length (log w) + 2 * k) base64Image headers =
           Resolves (Some text)"
    and "text \<noteq> []"
    and "jsonParse env (cleanText text) = Inr v"
    and "\<not> isArray v"
  shows "extractDataFromImage env base64Image headers w =
           (Inr v, w\<lparr>log := log w @ backoffEvents base64Image headers 0 k\<rparr>)"
proof (rule response_after_retries [OF assms(1-3)])
  show "readResponse (jsonParse env) (Some text) = Inr v"
    using assms(4-6) by (cases v) (simp_all add: readResponse_def)
qed

theorem non_list_value_returned_as_is_witness:
  \<open>extractDataFromImage (lateAnswer 0 ''42'') ''img'' [''date''] emptyWorld =
     (Inr (JNum (Finite 42)), emptyWorld\<lparr>log := [GenerateContent ''img'' [''date'']]\<rparr>)
   \<and> extractDataFromImage (lateAnswer 4 ''"n/a"'') ''img'' [''date''] emptyWorld =
     (Inr (JStr ''n/a''),
      emptyWorld\<lparr>log :=
        [GenerateContent ''img'' [''date''], Wait 4000,
         GenerateContent ''img'' [''date''], Wait 8000,
         GenerateContent ''img'' [''date'']]\<rparr>)\<close>
proof -
  have p: \<open>JSON_parse (cleanText ''42'') = Inr (JNum (Finite 42))\<close>
    by code_simp
  have q: \<open>JSON_parse (cleanText ''"n/a"'') = Inr (JStr ''n/a'')\<close>
    by code_simp
  have a: \<open>extractDataFromImage (lateAnswer 0 ''42'') ''img'' [''date''] emptyWorld =
     (Inr (JNum (Finite 42)),
      emptyWorld\<lparr>log := log emptyWorld @ backoffEvents ''img'' [''date''] 0 0\<rparr>)\<close>
    by (rule non_list_value_returned_as_is [of 0 _ _ _ _ "''42''"]) (simp_all add: p)
  have b: \<open>extractDataFromImage (lateAnswer 4 ''"n/a"'') ''img'' [''date''] emptyWorld =
     (Inr (JStr ''n/a''),
      emptyWorld\<lparr>log := log emptyWorld @ backoffEvents ''img'' [''date''] 0 2\<rparr>)\<close>
    by (rule non_list_value_returned_as_is [of 2 _ _ _ _ \<open>''"n/a"''\<close>])
       (simp_all add: q emptyWorld_sel lateAnswer_retried)
  show ?thesis
    using a b by (simp add: emptyWorld_sel backoffEvents_2)
qed

text \<open>
  C5, as amended. Take any response that the service receives, the first one or the one
  that follows \<open>k\<close> retried passes. When its cleaned text parses to a list, the service
  returns the first element of the list if that element is truthy, and the empty record
  otherwise: when the list is empty, and also when its first element is null, false,
  zero or the empty string. The two examples of the claim hold (see the witness).
\<close>

theorem list_response_first_element:
  assumes "k \<le> 5"
    and "\<forall>j<k. retriedAt env base64Image headers (length (log w) + 2 * j)"
    and "generateContent env (length (log w) + 2 * k) base64Image headers =
           Resolves (Some text)"
    and "text \<noteq> []"
    and "jsonParse env (cleanText text) = Inr (JArr xs)"
  shows "extractDataFromImage env base64Image headers w =
           (Inr (case xs of [] \<Rightarrow> JObj [] | x # rest \<Rightarrow> if truthy x then x else JObj []),
            w\<lparr>log := log w @ backoffEvents base64Image headers 0 k\<rparr>)"
proof (rule response_after_retries [OF assms(1-3)])
  show "readResponse (jsonParse env) (Some text) =
          Inr (case xs of [] \<Rightarrow> JObj [] | x # rest \<Rightarrow> if truthy x then x else JObj [])"
    using assms(4,5) by (simp add: readResponse_def)
qed

theorem list_response_first_element_witness:
  \<open>extractDataFromImage (lateAnswer 4 ''[{"a":1},{"a":2}]'') ''img'' [] emptyWorld =
     (Inr (JObj [(''a'', JNum (Finite 1))]),
      emptyWorld\<lparr>log :=
        [GenerateContent ''img'' [], Wait 4000, GenerateContent ''img'' [], Wait 8000,
         GenerateContent ''img'' []]\<rparr>)
   \<and> extractDataFromImage (lateAnswer 0 ''[]'') ''img'' [] emptyWorld =
     (Inr (JObj []), emptyWorld\<lparr>log := [GenerateContent ''img'' []]\<rparr>)\<close>
proof -
  have p1: \<open>JSON_parse (cleanText ''[{"a":1},{"a":2}]'') =
            Inr (JArr [JObj [(''a'', JNum (Finite 1))], JObj [(''a'', JNum (Finite 2))]])\<close>
    by code_simp
  have p2: \<open>JSON_parse (cleanText ''[]'') = Inr (JArr [])\<close>
    by code_simp
  have a: \<open>extractDataFromImage (lateAnswer 4 ''[{"a":1},{"a":2}]'') ''img'' [] emptyWorld =
           (Inr (case [JObj [(''a'', JNum (Finite 1))], JObj [(''a'', JNum (Finite 2))]] of
                   [] \<Rightarrow> JObj [] | x # rest \<Rightarrow> if truthy x then x else JObj []),
            emptyWorld\<lparr>log := log emptyWorld @ backoffEvents ''img'' [] 0 2\<rparr>)\<close>
    by (rule list_response_first_element [of 2 _ _ _ _ \<open>''[{"a":1},{"a":2}]''\<close>])
       (simp_all add: p1 emptyWorld_sel lateAnswer_retried)
  have b: \<open>extractDataFromImage (lateAnswer 0 ''[]'') ''img'' [] emptyWorld =
           (Inr (case [] of [] \<Rightarrow> JObj [] | x # rest \<Rightarrow> if truthy x then x else JObj []),
            emptyWorld\<lparr>log := log emptyWorld @ backoffEvents ''img'' [] 0 0\<rparr>)\<close>
    by (rule list_response_first_element [of 0 _ _ _ _ \<open>''[]''\<close>]) (simp_all add: p2)
  show ?thesis using a b by (simp add: emptyWorld_sel backoffEvents_2)
qed

text \<open>
  The claim as stated fails on the response \<^verbatim>\<open>[0, 7]\<close>: the text parses to a list of two
  elements whose first element is the number 0, and the service returns the empty record,
  which is neither the first element nor the sign of an empty list.
\<close>

theorem list_response_counterexample:
  \<open>JSON_parse ''[0, 7]'' = Inr (JArr [JNum (Finite 0), JNum (Finite 7)])
   \<and> fst (extractDataFromImage (exampleEnv (\<lambda>b. Resolves (Some ''[0, 7]''))) ''img'' []
            emptyWorld) = Inr (JObj [])\<close>
proof -
  have parsed: \<open>JSON_parse ''[0, 7]'' = Inr (JArr [JNum (Finite 0), JNum (Finite 7)])\<close>
    by code_simp
  have answer: \<open>readResponse JSON_parse (Some ''[0, 7]'') = Inr (JObj [])\<close>
    by code_simp
  show ?thesis
    using parsed answer
      first_answer [of "exampleEnv (\<lambda>b. Resolves (Some ''[0, 7]''))" emptyWorld "''img''" "[]"
        "Some ''[0, 7]''" "JObj []"]
    by simp
qed

subsection \<open>A response wrapped in a code fence\<close>

lemma trim_padded:
  assumes "\<forall>c \<in> set pre. isWhiteSpace c" and "\<forall>c \<in> set post. isWhiteSpace c"
    and "x \<noteq> []" and "\<not> isWhiteSpace (hd x)" and "\<not> isWhiteSpace (last x)"
  shows "trim (pre @ x @ post) = x"
proof -
  have front: "dropWhile isWhiteSpace (pre @ x @ post) = x @ post"
    using assms(1,3,4) by (cases x) (simp_all add: dropWhile_append3)
  have rear: "dropWhile isWhiteSpace (rev post @ rev x) = rev x"
    using assms(2,3,5) by (cases x rule: rev_cases) (simp_all add: dropWhile_append3)
  show ?thesis
    by (simp add: trim_def front rear)
qed

lemma brace_not_space: "\<not> isWhiteSpace (CHR ''{'')" and tick_not_space: "\<not> isWhiteSpace (CHR ''`'')"
  by (simp_all add: isWhiteSpace_def)

text \<open>A text whose first character after the blanks is the opening brace.\<close>

lemma trim_brace:
  assumes "dropWhile isWhiteSpace body = CHR ''{'' # r"
  shows "trim body = CHR ''{'' # rev (dropWhile isWhiteSpace (rev r))"
  using assms brace_not_space by (simp add: trim_def dropWhile_append)

lemma starts_brace_iff:
  "startsWith (trim body) ''{'' \<longleftrightarrow> (\<exists>r. dropWhile isWhiteSpace body = CHR ''{'' # r)"
proof
  assume "\<exists>r. dropWhile isWhiteSpace body = CHR ''{'' # r"
  then show "startsWith (trim body) ''{''"
    using trim_brace by (auto simp: startsWith_def)
next
  assume a: "startsWith (trim body) ''{''"
  show "\<exists>r. dropWhile isWhiteSpace body = CHR ''{'' # r"
  proof (cases "dropWhile isWhiteSpace body")
    case Nil
    have "trim body = []" unfolding trim_def Nil by simp
    then show ?thesis using a by (simp add: startsWith_def)
  next
    case (Cons c r)
    then have "\<not> isWhiteSpace c"
      by (metis hd_dropWhile list.distinct(1) list.sel(1))
    then have "trim body = c # rev (dropWhile isWhiteSpace (rev r))"
      using Cons by (simp add: trim_def dropWhile_append)
    then show ?thesis using a Cons by (simp add: startsWith_def)
  qed
qed

lemma cleanText_plain:
  assumes "startsWith (trim body) ''{''"
  shows "cleanText body = trim body"
proof -
  obtain r where "trim body = CHR ''{'' # r"
    using assms by (cases "trim body") (simp_all add: startsWith_def)
  then show ?thesis
    by (simp add: cleanText_def startsWith_def fence_def)
qed

lemma retryLoop_cong:
  assumes same: "\<And>v. tryBlock env1 b hs v = tryBlock env2 b hs v"
  shows "retryLoop env1 b hs a w = retryLoop env2 b hs a w"
proof (induction "maxRetries - a" arbitrary: a w)
  case 0
  then have "\<not> a < maxRetries" by simp
  then show ?case
    by (subst retryLoop.simps, subst (2) retryLoop.simps)
       (simp add: same Let_def split: sum.splits)
next
  case (Suc d)
  have "retryLoop env1 b hs (a + 1) v = retryLoop env2 b hs (a + 1) v" for v
    using Suc(1) [of "a + 1" v] Suc(2) by simp
  then show ?case
    by (subst retryLoop.simps, subst (2) retryLoop.simps)
       (simp add: same Let_def split: sum.splits)
qed

lemma body_first:
  assumes "startsWith (trim body) ''{''"
  obtains c cs where "body = c # cs" and "c = CHR ''{'' \<or> isWhiteSpace c"
proof -
  obtain r where r: "dropWhile isWhiteSpace body = CHR ''{'' # r"
    using assms starts_brace_iff by blast
  then obtain c cs where b: "body = c # cs" by (cases body) simp_all
  have "c = CHR ''{'' \<or> isWhiteSpace c"
    using r b by (cases "isWhiteSpace c") simp_all
  then show ?thesis using that b by blast
qed

lemma json_letters_not_space:
  "\<not> isWhiteSpace (CHR ''j'')" "\<not> isWhiteSpace (CHR ''s'')"
  "\<not> isWhiteSpace (CHR ''o'')" "\<not> isWhiteSpace (CHR ''n'')"
  by (simp_all add: isWhiteSpace_def)

lemma json_prefix:
  assumes "startsWith (trim body) ''{''"
  shows "startsWith (tag @ body @ rest) ''json'' = startsWith tag ''json''"
proof -
  obtain c cs where b: "body = c # cs" and c: "c = CHR ''{'' \<or> isWhiteSpace c"
    using body_first [OF assms] by blast
  have no: "c \<noteq> CHR ''j''" "c \<noteq> CHR ''s''" "c \<noteq> CHR ''o''" "c \<noteq> CHR ''n''"
    using c json_letters_not_space by auto
  show ?thesis
  proof (cases tag)
    case Nil
    then show ?thesis using b no by (simp add: startsWith_def)
  next
    case (Cons t1 r1)
    show ?thesis
    proof (cases r1)
      case Nil
      then show ?thesis using Cons b no by (simp add: startsWith_def)
    next
      case (Cons t2 r2)
      note c2 = this
      show ?thesis
      proof (cases r2)
        case Nil
        then show ?thesis using \<open>tag = t1 # r1\<close> c2 b no by (simp add: startsWith_def)
      next
        case (Cons t3 r3)
        note c3 = this
        show ?thesis
        proof (cases r3)
          case Nil
          then show ?thesis using \<open>tag = t1 # r1\<close> c2 c3 b no by (simp add: startsWith_def)
        next
          case (Cons t4 r4)
          then show ?thesis using \<open>tag = t1 # r1\<close> c2 c3 by (simp add: startsWith_def)
        qed
      qed
    qed
  qed
qed

lemma restOfTag_language: "isLanguageTag tag \<Longrightarrow> isLanguageTag (restOfTag tag)"
  by (auto simp: isLanguageTag_def restOfTag_def list_all_iff dest: in_set_dropD)

lemma restOfTag_empty: "restOfTag tag = [] \<longleftrightarrow> tag = [] \<or> tag = ''json''"
proof (cases "startsWith tag ''json''")
  case False
  then show ?thesis by (auto simp: restOfTag_def startsWith_def)
next
  case True
  have "tag = take (length ''json'') tag @ drop (length ''json'') tag"
    by simp
  then obtain d where d: "tag = ''json'' @ d"
    using True unfolding startsWith_def by metis
  show ?thesis unfolding d by (simp add: restOfTag_def startsWith_def)
qed

lemma trim_Cons:
  assumes "\<not> isWhiteSpace c"
  shows "trim (c # r) = c # rev (dropWhile isWhiteSpace (rev r))"
  using assms by (simp add: trim_def dropWhile_append)

lemma cleanText_rest:
  assumes "isLanguageTag tag" and "startsWith (trim body) ''{''"
  shows "cleanText (restOfTag tag @ body) = trim (restOfTag tag @ body)"
proof (cases "restOfTag tag")
  case Nil
  then show ?thesis using cleanText_plain [OF assms(2)] by simp
next
  case (Cons t ts)
  then have "\<not> isWhiteSpace t" "t \<noteq> CHR ''`''"
    using restOfTag_language [OF assms(1)] by (simp_all add: isLanguageTag_def)
  then show ?thesis
    using Cons by (simp add: cleanText_def trim_Cons startsWith_def fence_def)
qed

lemma cleanText_tagged:
  assumes tag: "isLanguageTag tag"
    and body: "startsWith (trim body) ''{''"
    and pre: "\<forall>c \<in> set pre. isWhiteSpace c" and post: "\<forall>c \<in> set post. isWhiteSpace c"
  shows "cleanText (pre @ fence @ tag @ body @ fence @ post) = cleanText (restOfTag tag @ body)"
proof -
  let ?x = "fence @ tag @ body @ fence"
  have t: "trim (pre @ ?x @ post) = ?x"
    by (rule trim_padded [OF pre post]) (simp_all add: fence_def tick_not_space)
  have lead: "replaceLeadingFence ?x = restOfTag tag @ body @ fence"
    using json_prefix [OF body, of tag fence]
    by (auto simp: replaceLeadingFence_def restOfTag_def startsWith_def fence_def)
  have trail: "replaceTrailingFence (restOfTag tag @ body @ fence) = restOfTag tag @ body"
    by (simp add: replaceTrailingFence_def endsWith_def fence_def)
  have "cleanText (pre @ ?x @ post) = trim (restOfTag tag @ body)"
    using t lead trail by (simp add: cleanText_def startsWith_def fence_def)
  then show ?thesis
    using cleanText_rest [OF tag body] by simp
qed

lemma readResponse_tagged:
  assumes "isLanguageTag tag" and "startsWith (trim body) ''{''"
    and "\<forall>c \<in> set pre. isWhiteSpace c" and "\<forall>c \<in> set post. isWhiteSpace c"
  shows "readResponse parse (Some (pre @ fence @ tag @ body @ fence @ post)) =
           readResponse parse (Some (restOfTag tag @ body))"
proof -
  have "body \<noteq> []"
    using assms(2) by (auto simp: trim_def startsWith_def)
  moreover have "pre @ fence @ tag @ body @ fence @ post \<noteq> []"
    by (simp add: fence_def)
  ultimately show ?thesis
    using cleanText_tagged [OF assms] by (simp add: readResponse_def)
qed

lemma lateAnswer_fenced:
  assumes "isLanguageTag tag" and "startsWith (trim body) ''{''"
    and "\<forall>c \<in> set pre. isWhiteSpace c" and "\<forall>c \<in> set post. isWhiteSpace c"
  shows "\<forall>n. generateContent (lateAnswer m (pre @ fence @ tag @ body @ fence @ post)) n b hs =
               generateContent (lateAnswer m (restOfTag tag @ body)) n b hs
             \<or> (\<exists>tag' body' pre' post'.
                  isLanguageTag tag' \<and> startsWith (trim body') ''{'' \<and>
                  (\<forall>c \<in> set pre'. isWhiteSpace c) \<and> (\<forall>c \<in> set post'. isWhiteSpace c) \<and>
                  generateContent (lateAnswer m (pre @ fence @ tag @ body @ fence @ post)) n b hs =
                    Resolves (Some (pre' @ fence @ tag' @ body' @ fence @ post')) \<and>
                  generateContent (lateAnswer m (restOfTag tag @ body)) n b hs =
                    Resolves (Some (restOfTag tag' @ body')))"
proof
  fix n
  show "generateContent (lateAnswer m (pre @ fence @ tag @ body @ fence @ post)) n b hs =
               generateContent (lateAnswer m (restOfTag tag @ body)) n b hs
             \<or> (\<exists>tag' body' pre' post'.
                  isLanguageTag tag' \<and> startsWith (trim body') ''{'' \<and>
                  (\<forall>c \<in> set pre'. isWhiteSpace c) \<and> (\<forall>c \<in> set post'. isWhiteSpace c) \<and>
                  generateContent (lateAnswer m (pre @ fence @ tag @ body @ fence @ post)) n b hs =
                    Resolves (Some (pre' @ fence @ tag' @ body' @ fence @ post')) \<and>
                  generateContent (lateAnswer m (restOfTag tag @ body)) n b hs =
                    Resolves (Some (restOfTag tag' @ body')))"
  proof (cases "n < m")
    case True
    then show ?thesis by simp
  next
    case False
    have "isLanguageTag tag \<and> startsWith (trim body) ''{'' \<and>
            (\<forall>c \<in> set pre. isWhiteSpace c) \<and> (\<forall>c \<in> set post. isWhiteSpace c) \<and>
            generateContent (lateAnswer m (pre @ fence @ tag @ body @ fence @ post)) n b hs =
              Resolves (Some (pre @ fence @ tag @ body @ fence @ post)) \<and>
            generateContent (lateAnswer m (restOfTag tag @ body)) n b hs =
              Resolves (Some (restOfTag tag @ body))"
      using False assms by simp
    then show ?thesis by blast
  qed
qed

text \<open>
  C2, as amended. Take a response that is a fenced code block, with blanks allowed
  around it, whose body starts, after its blanks, with the opening brace, as the text
  of a JSON object does. The service removes the two fence markers, and the word
  \<open>json\<close> when it follows the opening marker directly. So with no language tag, or
  with the tag \<open>json\<close>, the service does exactly what it does for the unwrapped text;
  with any other tag it does what it does for the body with the rest of the tag still
  in front of it, and that rest is not empty. The theorem compares two models that give
  the same outcome at every step, except that where the first answers with the fenced
  text the second answers with the text that is left: the two runs of the service are
  equal, whatever the pass at which such an answer arrives.
\<close>

theorem fenced_response_same_as_unwrapped:
  assumes "jsonParse env1 = jsonParse env2"
    and "\<forall>n. generateContent env1 n base64Image headers =
               generateContent env2 n base64Image headers
             \<or> (\<exists>tag body pre post.
                  isLanguageTag tag \<and> startsWith (trim body) ''{'' \<and>
                  (\<forall>c \<in> set pre. isWhiteSpace c) \<and> (\<forall>c \<in> set post. isWhiteSpace c) \<and>
                  generateContent env1 n base64Image headers =
                    Resolves (Some (pre @ fence @ tag @ body @ fence @ post)) \<and>
                  generateContent env2 n base64Image headers =
                    Resolves (Some (restOfTag tag @ body)))"
  shows "extractDataFromImage env1 base64Image headers w =
           extractDataFromImage env2 base64Image headers w
         \<and> (\<forall>tag. restOfTag tag = [] \<longleftrightarrow> tag = [] \<or> tag = ''json'')"
proof -
  have "tryBlock env1 base64Image headers v = tryBlock env2 base64Image headers v" for v
    using assms(2) [rule_format, of "length (log v)"]
    by (auto simp: tryBlock_def readResponse_tagged assms(1) split: outcome.splits)
  then have "extractDataFromImage env1 base64Image headers w =
               extractDataFromImage env2 base64Image headers w"
    unfolding extractDataFromImage_def by (rule retryLoop_cong)
  then show ?thesis using restOfTag_empty by blast
qed

theorem fenced_response_same_as_unwrapped_witness:
  \<open>extractDataFromImage
      (lateAnswer 2 (fence @ ''json'' @ ''\<newline>{"a":1}\<newline>'' @ fence @ ''\<newline>''))
      ''img'' [] emptyWorld =
    (Inr (JObj [(''a'', JNum (Finite 1))]),
     emptyWorld\<lparr>log := [GenerateContent ''img'' [], Wait 4000, GenerateContent ''img'' []]\<rparr>)
   \<and> extractDataFromImage
      (lateAnswer 0 (fence @ ''yaml'' @ ''\<newline>{"a":1}\<newline>'' @ fence))
      ''img'' [] emptyWorld =
    (Inl parseFailureError, emptyWorld\<lparr>log := [GenerateContent ''img'' []]\<rparr>)\<close>
proof -
  let ?body = \<open>''\<newline>{"a":1}\<newline>''\<close>
  let ?left = \<open>''yaml\<newline>{"a":1}\<newline>''\<close>
  have brace: "startsWith (trim ?body) ''{''"
    by code_simp
  have tags: "isLanguageTag ''json''" "isLanguageTag ''yaml''"
    by code_simp+
  have rest: "restOfTag ''json'' = []" "restOfTag ''yaml'' = ''yaml''"
    by code_simp+
  have sp: \<open>\<forall>c \<in> set ''\<newline>''. isWhiteSpace c\<close> "\<forall>c \<in> set []. isWhiteSpace c"
    by (simp_all add: isWhiteSpace_def)
  have plain: "readResponse JSON_parse (Some ?body) = Inr (JObj [(''a'', JNum (Finite 1))])"
    by code_simp
  have unwrapped: "extractDataFromImage (lateAnswer 2 ?body) ''img'' [] emptyWorld =
      (Inr (JObj [(''a'', JNum (Finite 1))]),
       emptyWorld\<lparr>log := log emptyWorld @ backoffEvents ''img'' [] 0 1\<rparr>)"
    by (rule response_after_retries [of 1 _ _ _ _ "Some ?body"])
       (simp_all add: plain emptyWorld_sel lateAnswer_retried)
  have tagged: "readResponse JSON_parse (Some ?left) =
                  Inl (syntaxError (syntaxErrorMessage (cleanText ?left)))"
    by code_simp
  have no_limit: "\<not> isRateLimit (syntaxError (syntaxErrorMessage (cleanText ?left)))"
    by code_simp
  have left: "extractDataFromImage (lateAnswer 0 ?left) ''img'' [] emptyWorld =
      (Inl (rethrow (syntaxError (syntaxErrorMessage (cleanText ?left)))),
       emit (GenerateContent ''img'' []) emptyWorld)"
    unfolding extractDataFromImage_def
    by (rule retry_stop) (simp_all add: tryBlock_def tagged no_limit)
  have one: "backoffEvents ''img'' [] 0 1 =
               [GenerateContent ''img'' [], Wait 4000, GenerateContent ''img'' []]"
    by simp
  have a: \<open>extractDataFromImage
      (lateAnswer 2 (fence @ ''json'' @ ?body @ fence @ ''\<newline>'')) ''img'' [] emptyWorld =
    (Inr (JObj [(''a'', JNum (Finite 1))]),
     emptyWorld\<lparr>log := [GenerateContent ''img'' [], Wait 4000, GenerateContent ''img'' []]\<rparr>)\<close>
    using fenced_response_same_as_unwrapped [of
        \<open>lateAnswer 2 ([] @ fence @ ''json'' @ ?body @ fence @ ''\<newline>'')\<close>
        "lateAnswer 2 (restOfTag ''json'' @ ?body)" "''img''" "[]" emptyWorld,
        OF _ lateAnswer_fenced [OF tags(1) brace sp(2) sp(1)]] unwrapped
    by (simp add: emptyWorld_sel one rest)
  have b: \<open>extractDataFromImage
      (lateAnswer 0 (fence @ ''yaml'' @ ?body @ fence)) ''img'' [] emptyWorld =
    (Inl parseFailureError, emptyWorld\<lparr>log := [GenerateContent ''img'' []]\<rparr>)\<close>
    using fenced_response_same_as_unwrapped [of
        \<open>lateAnswer 0 ([] @ fence @ ''yaml'' @ ?body @ fence @ [])\<close>
        "lateAnswer 0 (restOfTag ''yaml'' @ ?body)" "''img''" "[]" emptyWorld,
        OF _ lateAnswer_fenced [OF tags(2) brace sp(2) sp(2)]] left
    by (simp add: emptyWorld_def emit_def rest rethrow_def syntaxError_def)
  show ?thesis using a b by (rule conjI)
qed

text \<open>
  The claim as stated fails for a fence with another tag: after \<^verbatim>\<open>```js\<close> the letters
  \<open>js\<close> stay in front of the object, the text does not parse, and the service throws
  the parse-failure error, while for the unwrapped text it returns the record.
\<close>

theorem fenced_response_counterexample:
  \<open>fst (extractDataFromImage
          (exampleEnv (\<lambda>b. Resolves (Some ''```js\<newline>{"a":1}\<newline>```''))) ''img'' []
          emptyWorld) = Inl parseFailureError
   \<and> fst (extractDataFromImage
          (exampleEnv (\<lambda>b. Resolves (Some ''{"a":1}''))) ''img'' [] emptyWorld) =
       Inr (JObj [(''a'', JNum (Finite 1))])\<close>
proof -
  let ?m = \<open>syntaxErrorMessage ''js\<newline>{"a":1}''\<close>
  have fenced: \<open>readResponse JSON_parse (Some ''```js\<newline>{"a":1}\<newline>```'') =
                  Inl (syntaxError ?m)\<close>
    by code_simp
  have no_limit: \<open>\<not> isRateLimit (syntaxError ?m)\<close>
    by code_simp
  have plain: \<open>readResponse JSON_parse (Some ''{"a":1}'') =
                 Inr (JObj [(''a'', JNum (Finite 1))])\<close>
    by code_simp
  have a: \<open>extractDataFromImage
          (exampleEnv (\<lambda>b. Resolves (Some ''```js\<newline>{"a":1}\<newline>```''))) ''img'' []
          emptyWorld = (Inl (rethrow (syntaxError ?m)), emit (GenerateContent ''img'' []) emptyWorld)\<close>
    unfolding extractDataFromImage_def
    by (rule retry_stop) (simp_all add: tryBlock_def fenced no_limit)
  have b: \<open>extractDataFromImage
          (exampleEnv (\<lambda>b. Resolves (Some ''{"a":1}''))) ''img'' [] emptyWorld =
       (Inr (JObj [(''a'', JNum (Finite 1))]), emit (GenerateContent ''img'' []) emptyWorld)\<close>
    by (rule first_answer [of _ _ _ _ \<open>Some ''{"a":1}''\<close>]) (simp_all add: plain)
  show ?thesis
    using a b by (simp add: rethrow_def syntaxError_def)
qed

subsection \<open>A response that does not parse\<close>

text \<open>
  C6. The claim says that a response that cannot be parsed is never retried. The
  \<open>catch\<close> clause applies its rate-limit test to every thrown value, the
  \<open>SyntaxError\<close> of the parser included, and the test looks for the digits 429 in the
  message. With a parser that quotes the rejected text in its message, the response
  \<^verbatim>\<open>RC 429\<close> is taken for a rate limit: the request is sent six times, with the five
  waits in between, before the parse-failure error is thrown.
\<close>

theorem parse_failure_retried:
  \<open>extractDataFromImage (exampleEnv (\<lambda>b. Resolves (Some ''RC 429''))) ''img'' [''date'']
      emptyWorld =
     (Inl parseFailureError,
      emptyWorld\<lparr>log :=
               [GenerateContent ''img'' [''date''], Wait 4000,
                GenerateContent ''img'' [''date''], Wait 8000,
                GenerateContent ''img'' [''date''], Wait 16000,
                GenerateContent ''img'' [''date''], Wait 32000,
                GenerateContent ''img'' [''date''], Wait 64000,
                GenerateContent ''img'' [''date'']]\<rparr>)\<close>
proof -
  have bad: \<open>readResponse JSON_parse (Some ''RC 429'') =
               Inl (syntaxError (syntaxErrorMessage ''RC 429''))\<close>
    by code_simp
  have fails: \<open>tryBlock (exampleEnv (\<lambda>b. Resolves (Some ''RC 429''))) ''img'' [''date''] v =
                 Inl (syntaxError (syntaxErrorMessage ''RC 429''))\<close> for v
    using bad by (simp add: tryBlock_def)
  have limited: \<open>isRateLimit (syntaxError (syntaxErrorMessage ''RC 429''))\<close>
    by code_simp
  show ?thesis
    using backoff_run [of "exampleEnv (\<lambda>b. Resolves (Some ''RC 429''))" "''img''" "[''date'']"
        "\<lambda>v. syntaxError (syntaxErrorMessage ''RC 429'')" emptyWorld, OF fails limited]
    by (simp add: rethrow_def syntaxError_def emptyWorld_def)
qed

subsection \<open>The events of one extraction\<close>

lemma retryLoop_events:
  "attempt \<le> 5 \<Longrightarrow>
   \<exists>n \<le> 5 - attempt.
     snd (retryLoop env b hs attempt w) = w\<lparr>log := log w @ backoffEvents b hs attempt n\<rparr>"
proof (induction env b hs attempt w rule: retryLoop.induct)
  case (1 env b hs attempt w)
  show ?case
  proof (cases "tryBlock env b hs w")
    case (Inr d)
    then have "snd (retryLoop env b hs attempt w) = w\<lparr>log := log w @ backoffEvents b hs attempt 0\<rparr>"
      by (subst retryLoop.simps) (simp add: emit_def)
    then show ?thesis by blast
  next
    case (Inl e)
    show ?thesis
    proof (cases "isRateLimit e \<and> attempt < 5")
      case False
      then have "snd (retryLoop env b hs attempt w) = w\<lparr>log := log w @ backoffEvents b hs attempt 0\<rparr>"
        using Inl by (subst retryLoop.simps) (auto simp: emit_def maxRetries_def)
      then show ?thesis by blast
    next
      case True
      let ?w' = "wait (2 ^ (attempt + 2) * 1000) (emit (GenerateContent b hs) w)"
      have eq: "retryLoop env b hs attempt w = retryLoop env b hs (attempt + 1) ?w'"
        using Inl True by (intro retry_again [of env b hs w e]) simp_all
      have "\<exists>n \<le> 5 - (attempt + 1).
              snd (retryLoop env b hs (attempt + 1) ?w') =
                ?w'\<lparr>log := log ?w' @ backoffEvents b hs (attempt + 1) n\<rparr>"
        using "1.IH" [OF refl Inl _ refl refl] True by (simp add: maxRetries_def)
      then obtain n where n: "n \<le> 5 - (attempt + 1)"
        and run: "snd (retryLoop env b hs (attempt + 1) ?w') =
                ?w'\<lparr>log := log ?w' @ backoffEvents b hs (attempt + 1) n\<rparr>"
        by blast
      have "snd (retryLoop env b hs attempt w) =
              w\<lparr>log := log w @ backoffEvents b hs attempt (Suc n)\<rparr>"
        using eq run by (simp add: emit_def wait_def)
      moreover have "Suc n \<le> 5 - attempt" using n True by arith
      ultimately show ?thesis by blast
    qed
  qed
qed

lemma requests_append [simp]: "requests (xs @ ys) = requests xs @ requests ys"
  by (induction xs rule: requests.induct) simp_all

lemma requests_backoffEvents: "requests (backoffEvents b hs a n) = replicate (Suc n) b"
  by (induction n arbitrary: a) (simp_all add: replicate_append_same)

lemma backoff_not_5000: "4 * (2::nat) ^ a \<noteq> 5"
  by presburger

lemma count_backoffEvents: "count_list (backoffEvents b hs a n) (Wait 5000) = 0"
  by (induction n arbitrary: a) (simp_all add: backoff_not_5000)

lemma backoffEvents_nonempty: "backoffEvents b hs a n \<noteq> []"
  by (cases n) simp_all

lemma last_backoffEvents: "last (backoffEvents b hs a n) = GenerateContent b hs"
  by (induction n arbitrary: a) (simp_all add: backoffEvents_nonempty)

section \<open>Properties of the batch orchestrator\<close>

lemma log_setProcessingState [simp]:
  "log (setProcessingState s w) = log w @ [SetProcessingState s]"
  and rows_setProcessingState [simp]: "rows (setProcessingState s w) = rows w"
  and processingState_setProcessingState [simp]:
    "processingState (setProcessingState s w) = s"
  by (simp_all add: setProcessingState_def)

lemma log_setRows [simp]: "log (setRows r w) = log w @ [SetRows r]"
  and rows_setRows [simp]: "rows (setRows r w) = rows w @ [r]"
  by (simp_all add: setRows_def)

lemma log_announce [simp]:
  "log (announce images i w) = log w @ [SetProcessingState (announcement images i)]"
  and rows_announce [simp]: "rows (announce images i w) = rows w"
  by (simp_all add: announce_def announcement_def)

text \<open>What one turn does, in terms of what the service returns or throws.\<close>

lemma processImage_shape:
  fixes env hs images i w
  defines "w1 \<equiv> announce images i w"
  defines "r \<equiv> fst (extractDataFromImage env (base64 (images ! i)) hs w1)"
  shows "\<exists>n \<le> 5. \<exists>w2 row.
           w2 = w1\<lparr>log := log w1 @ backoffEvents (base64 (images ! i)) hs 0 n\<rparr> \<and>
           sourceImageName row = fileName (images ! i) \<and>
           (\<forall>v. r = Inr v \<longrightarrow> data row = v) \<and>
           processImage env hs images i (pc, errs, w) =
             (if isl r then (pc, errs @ [fileName (images ! i)], w2)
              else (pc + 1, errs, setRows row w2))"
proof -
  obtain n where n: "n \<le> 5"
    and run: "snd (extractDataFromImage env (base64 (images ! i)) hs w1) =
                w1\<lparr>log := log w1 @ backoffEvents (base64 (images ! i)) hs 0 n\<rparr>"
    using retryLoop_events [of 0 env "base64 (images ! i)" hs w1]
    by (auto simp: extractDataFromImage_def)
  let ?w2 = "w1\<lparr>log := log w1 @ backoffEvents (base64 (images ! i)) hs 0 n\<rparr>"
  have pair: "extractDataFromImage env (base64 (images ! i)) hs w1 = (r, ?w2)"
    using run by (simp add: r_def prod_eq_iff)
  show ?thesis
  proof (cases r)
    case (Inl e)
    let ?row = "\<lparr>idRow = [], data = JNull, sourceImageName = fileName (images ! i), timestamp = []\<rparr>"
    have "processImage env hs images i (pc, errs, w) = (pc, errs @ [fileName (images ! i)], ?w2)"
      using pair Inl by (simp add: processImage_def Let_def w1_def)
    then show ?thesis using n Inl
      by (intro exI [of _ n] conjI exI [of _ ?w2] exI [of _ ?row]) simp_all
  next
    case (Inr v)
    let ?row = "\<lparr>idRow = generateId env (length (log ?w2)), data = v,
                 sourceImageName = fileName (images ! i),
                 timestamp = toISOString env (length (log ?w2))\<rparr>"
    have "processImage env hs images i (pc, errs, w) = (pc + 1, errs, setRows ?row ?w2)"
      using pair Inr by (simp add: processImage_def Let_def w1_def)
    then show ?thesis using n Inr
      by (intro exI [of _ n] conjI exI [of _ ?w2] exI [of _ ?row]) simp_all
  qed
qed

lemma turn_step:
  assumes st: "turnState env hs images w k = (pc, errs, wk)"
  shows "\<exists>n \<le> 5. \<exists>row.
           sourceImageName row = fileName (images ! k) \<and>
           (\<forall>v. extraction env hs images w k = Inr v \<longrightarrow> data row = v) \<and>
           turnState env hs images w (Suc k) =
             (if isl (extraction env hs images w k) then pc else pc + 1,
              if isl (extraction env hs images w k) then errs @ [fileName (images ! k)] else errs,
              wk\<lparr>rows := rows wk @ (if isl (extraction env hs images w k) then [] else [row]),
                 processingState := announcement images k,
                 log := log wk @ [SetProcessingState (announcement images k)]
                          @ backoffEvents (base64 (images ! k)) hs 0 n
                          @ (if isl (extraction env hs images w k) then [] else [SetRows row])
                          @ (if k < length images - 1 then [Wait 5000] else [])\<rparr>)"
proof -
  let ?r = "extraction env hs images w k"
  have r: "?r = fst (extractDataFromImage env (base64 (images ! k)) hs (announce images k wk))"
    by (simp add: extraction_def st)
  obtain n w2 row where n: "n \<le> 5"
    and w2: "w2 = (announce images k wk)\<lparr>log := log (announce images k wk)
                     @ backoffEvents (base64 (images ! k)) hs 0 n\<rparr>"
    and name: "sourceImageName row = fileName (images ! k)"
    and val: "\<forall>v. ?r = Inr v \<longrightarrow> data row = v"
    and p: "processImage env hs images k (pc, errs, wk) =
             (if isl ?r then (pc, errs @ [fileName (images ! k)], w2)
              else (pc + 1, errs, setRows row w2))"
    using processImage_shape [where env = env and images = images and i = k and hs = hs and w = wk
        and pc = pc and errs = errs] unfolding r by blast
  have next_state: "turnState env hs images w (Suc k) = loopBody env hs images k (pc, errs, wk)"
    using st by (simp add: turnState_def)
  have "turnState env hs images w (Suc k) =
             (if isl ?r then pc else pc + 1,
              if isl ?r then errs @ [fileName (images ! k)] else errs,
              wk\<lparr>rows := rows wk @ (if isl ?r then [] else [row]),
                 processingState := announcement images k,
                 log := log wk @ [SetProcessingState (announcement images k)]
                          @ backoffEvents (base64 (images ! k)) hs 0 n
                          @ (if isl ?r then [] else [SetRows row])
                          @ (if k < length images - 1 then [Wait 5000] else [])\<rparr>)"
    unfolding next_state loopBody_def p w2
    by (simp add: announce_def announcement_def setProcessingState_def setRows_def emit_def
        wait_def)
  then show ?thesis using n name val by blast
qed

lemma turnState_0 [simp]:
  "turnState env hs images w 0 = (0, [], startProcessing images w)"
  by (simp add: turnState_def)

lemma count_inv:
  "fst (turnState env hs images w k) =
     length (filter (\<lambda>i. \<not> isl (extraction env hs images w i)) [0..<k])"
proof (induction k)
  case 0
  show ?case by simp
next
  case (Suc k)
  obtain pc errs wk where st: "turnState env hs images w k = (pc, errs, wk)"
    by (cases "turnState env hs images w k")
  show ?case
    using turn_step [OF st] Suc st by auto
qed

lemma errors_inv:
  "fst (snd (turnState env hs images w k)) =
     map (\<lambda>i. fileName (images ! i))
       (filter (\<lambda>i. isl (extraction env hs images w i)) [0..<k])"
proof (induction k)
  case 0
  show ?case by simp
next
  case (Suc k)
  obtain pc errs wk where st: "turnState env hs images w k = (pc, errs, wk)"
    by (cases "turnState env hs images w k")
  show ?case
    using turn_step [OF st] Suc st by auto
qed

lemma rows_inv:
  "\<exists>new. rows (snd (snd (turnState env hs images w k))) = rows w @ new \<and>
     map (\<lambda>r. (sourceImageName r, data r)) new =
       map (\<lambda>i. (fileName (images ! i), projr (extraction env hs images w i)))
         (filter (\<lambda>i. \<not> isl (extraction env hs images w i)) [0..<k])"
proof (induction k)
  case 0
  show ?case by (simp add: startProcessing_def)
next
  case (Suc k)
  obtain pc errs wk where st: "turnState env hs images w k = (pc, errs, wk)"
    by (cases "turnState env hs images w k")
  let ?r = "extraction env hs images w k"
  obtain new where new: "rows wk = rows w @ new"
    and names: "map (\<lambda>r. (sourceImageName r, data r)) new =
       map (\<lambda>i. (fileName (images ! i), projr (extraction env hs images w i)))
         (filter (\<lambda>i. \<not> isl (extraction env hs images w i)) [0..<k])"
    using Suc st by auto
  obtain row where name: "sourceImageName row = fileName (images ! k)"
    and val: "\<forall>v. ?r = Inr v \<longrightarrow> data row = v"
    and rws: "rows (snd (snd (turnState env hs images w (Suc k)))) =
                rows wk @ (if isl ?r then [] else [row])"
    using turn_step [OF st] by auto
  show ?case
  proof (cases ?r)
    case (Inl e)
    then show ?thesis using rws new names by simp
  next
    case (Inr v)
    then have "data row = v" using val by simp
    then show ?thesis using Inr rws new names name
      by (intro exI [of _ "new @ [row]"]) simp
  qed
qed

lemma log_inv:
  assumes "k \<le> length images"
  shows "\<exists>L ks. log (snd (snd (turnState env hs images w k))) = log w @ L \<and>
           count_list L (Wait 5000) = min k (length images - 1) \<and>
           length ks = k \<and> (\<forall>n \<in> set ks. 1 \<le> n \<and> n \<le> 6) \<and>
           requests L =
             concat (map (\<lambda>(img, n). replicate n (base64 img)) (zip (take k images) ks))"
  using assms
proof (induction k)
  case 0
  show ?case
    by (intro exI [of _ "[SetProcessingState (processingState (startProcessing images w))]"]
        exI [of _ "[]"]) (simp add: startProcessing_def)
next
  case (Suc k)
  obtain pc errs wk where st: "turnState env hs images w k = (pc, errs, wk)"
    by (cases "turnState env hs images w k")
  let ?r = "extraction env hs images w k"
  let ?b = "base64 (images ! k)"
  from Suc have k: "k < length images" by simp
  obtain L ks where L: "log wk = log w @ L"
    and cnt: "count_list L (Wait 5000) = min k (length images - 1)"
    and len: "length ks = k" and bound: "\<forall>n \<in> set ks. 1 \<le> n \<and> n \<le> 6"
    and req: "requests L =
             concat (map (\<lambda>(img, n). replicate n (base64 img)) (zip (take k images) ks))"
    using Suc st by auto
  obtain n row where n: "n \<le> 5"
    and lg: "log (snd (snd (turnState env hs images w (Suc k)))) =
               log wk @ [SetProcessingState (announcement images k)]
                 @ backoffEvents ?b hs 0 n
                 @ (if isl ?r then [] else [SetRows row])
                 @ (if k < length images - 1 then [Wait 5000] else [])"
    using turn_step [OF st] by auto
  let ?seg = "[SetProcessingState (announcement images k)]
                 @ backoffEvents ?b hs 0 n
                 @ (if isl ?r then [] else [SetRows row])
                 @ (if k < length images - 1 then [Wait 5000] else [])"
  have seg_count: "count_list ?seg (Wait 5000) = (if k < length images - 1 then 1 else 0)"
    by (simp add: count_backoffEvents)
  have seg_req: "requests ?seg = replicate (Suc n) ?b"
    by (simp add: requests_backoffEvents)
  have zip_step: "zip (take (Suc k) images) (ks @ [Suc n]) =
                    zip (take k images) ks @ [(images ! k, Suc n)]"
    using k len by (simp add: take_Suc_conv_app_nth)
  have a: "log (snd (snd (turnState env hs images w (Suc k)))) = log w @ (L @ ?seg)"
    using lg L by simp
  have b: "count_list (L @ ?seg) (Wait 5000) = min (Suc k) (length images - 1)"
    using cnt seg_count k unfolding count_list_append by auto
  have c: "length (ks @ [Suc n]) = Suc k" using len by simp
  have d: "\<forall>m \<in> set (ks @ [Suc n]). 1 \<le> m \<and> m \<le> 6" using bound n by auto
  have e: "requests (L @ ?seg) =
             concat (map (\<lambda>(img, n). replicate n (base64 img))
               (zip (take (Suc k) images) (ks @ [Suc n])))"
    unfolding zip_step by (simp add: req requests_backoffEvents)
  show ?case
    using a b c d e by blast
qed

lemma forLoop_stateAfter:
  "i \<le> length images \<Longrightarrow>
   forLoop env hs images i (stateAfter env hs images st i) =
     stateAfter env hs images st (length images)"
proof (induction "length images - i" arbitrary: i)
  case 0
  then show ?case by (simp add: forLoop.simps)
next
  case (Suc d)
  then have i: "i < length images" by simp
  have "forLoop env hs images i (stateAfter env hs images st i) =
          forLoop env hs images (i + 1) (stateAfter env hs images st (Suc i))"
    using i by (subst forLoop.simps) simp
  also have "\<dots> = stateAfter env hs images st (length images)"
    using Suc(1) [of "Suc i"] Suc(2) i by simp
  finally show ?case .
qed

lemma forLoop_turnState:
  "forLoop env hs images 0 (0, [], startProcessing images w) =
     turnState env hs images w (length images)"
  using forLoop_stateAfter [of 0 images env hs "(0, [], startProcessing images w)"]
  by (simp add: turnState_def)

lemma handleImagesSelected_run:
  assumes "images \<noteq> []"
    and "turnState env hs images w (length images) = (pc, errs, w2)"
  shows "handleImagesSelected env hs images w =
           w2\<lparr>processingState := finalState pc (length images) (length errs),
              log := log w2 @ [SetProcessingState (finalState pc (length images) (length errs)),
                               SetTimeout 4000 idleState]\<rparr>"
  using assms
  by (simp add: handleImagesSelected_def forLoop_turnState finalState_def
      setProcessingState_def emit_def)

lemma run_cases:
  obtains (empty) "images = []" "handleImagesSelected env hs images w = w"
  | (run) pc errs w2 where "images \<noteq> []"
      "turnState env hs images w (length images) = (pc, errs, w2)"
      "handleImagesSelected env hs images w =
         w2\<lparr>processingState := finalState pc (length images) (length errs),
            log := log w2 @ [SetProcessingState (finalState pc (length images) (length errs)),
                             SetTimeout 4000 idleState]\<rparr>"
proof (cases "images = []")
  case True
  then show ?thesis using empty by (simp add: handleImagesSelected_def)
next
  case False
  obtain pc errs w2 where st: "turnState env hs images w (length images) = (pc, errs, w2)"
    by (cases "turnState env hs images w (length images)")
  show ?thesis
    using run [OF False st handleImagesSelected_run [OF False st]] .
qed

lemma new_rows:
  "\<exists>new. rows (handleImagesSelected env hs images w) = rows w @ new \<and>
     map (\<lambda>r. (sourceImageName r, data r)) new =
       map (\<lambda>i. (fileName (images ! i), projr (extraction env hs images w i)))
         (succeededAt env hs images w)"
proof (cases rule: run_cases [of images env hs w])
  case empty
  then show ?thesis by (simp add: succeededAt_def)
next
  case (run pc errs w2)
  show ?thesis
    using rows_inv [of env hs images w "length images"] run(2,3)
    by (simp add: succeededAt_def)
qed

lemma new_events:
  "\<exists>L ks. log (handleImagesSelected env hs images w) = log w @ L \<and>
     count_list L (Wait 5000) = length images - 1 \<and>
     length ks = length images \<and> (\<forall>n \<in> set ks. 1 \<le> n \<and> n \<le> 6) \<and>
     requests L = concat (map (\<lambda>(img, n). replicate n (base64 img)) (zip images ks))"
proof (cases rule: run_cases [of images env hs w])
  case empty
  then show ?thesis by simp
next
  case (run pc errs w2)
  obtain L ks where L: "log w2 = log w @ L"
    and cnt: "count_list L (Wait 5000) = min (length images) (length images - 1)"
    and len: "length ks = length images" and bound: "\<forall>n \<in> set ks. 1 \<le> n \<and> n \<le> 6"
    and req: "requests L =
             concat (map (\<lambda>(img, n). replicate n (base64 img)) (zip images ks))"
    using log_inv [of "length images" images env hs w] run(2) by auto
  let ?tail = "[SetProcessingState (finalState pc (length images) (length errs)),
               SetTimeout 4000 idleState]"
  have "log (handleImagesSelected env hs images w) = log w @ (L @ ?tail)"
    using run(3) L by simp
  moreover have "count_list (L @ ?tail) (Wait 5000) = length images - 1"
    using cnt by simp
  moreover have "requests (L @ ?tail) =
                   concat (map (\<lambda>(img, n). replicate n (base64 img)) (zip images ks))"
    using req by simp
  ultimately show ?thesis using len bound by blast
qed

lemma row_of_success:
  assumes "i \<in> set (succeededAt env headers images w)"
  shows "\<exists>r \<in> set (drop (length (rows w)) (rows (handleImagesSelected env headers images w))).
           sourceImageName r = fileName (images ! i) \<and>
           Inr (data r) = extraction env headers images w i"
proof -
  obtain new where new: "rows (handleImagesSelected env headers images w) = rows w @ new"
    and names: "map (\<lambda>r. (sourceImageName r, data r)) new =
       map (\<lambda>i. (fileName (images ! i), projr (extraction env headers images w i)))
         (succeededAt env headers images w)"
    using new_rows by blast
  have "(fileName (images ! i), projr (extraction env headers images w i))
          \<in> set (map (\<lambda>r. (sourceImageName r, data r)) new)"
    using assms names by simp
  then obtain r where r: "r \<in> set new" "sourceImageName r = fileName (images ! i)"
    "data r = projr (extraction env headers images w i)"
    by auto
  have "\<not> isl (extraction env headers images w i)"
    using assms by (simp add: succeededAt_def)
  then have "Inr (data r) = extraction env headers images w i"
    using r(3) by (cases "extraction env headers images w i") simp_all
  then show ?thesis using r new by auto
qed

lemma failed_succeeded:
  "length (succeededAt env hs images w) = length images - length (failedAt env hs images w)"
  using sum_length_filter_compl [of "\<lambda>i. isl (extraction env hs images w i)" "[0..<length images]"]
  by (simp add: succeededAt_def failedAt_def)

lemma example_limited:
  assumes "reply (base64 (images ! i)) = Rejects e" and "isRateLimit e"
  shows "extraction (exampleEnv reply) hs images w i = Inl (rethrow e)"
  unfolding extraction_def
  using backoff_run [of "exampleEnv reply" "base64 (images ! i)" hs "\<lambda>v. e"] assms
  by (simp add: tryBlock_def)

lemma example_answer:
  assumes "reply (base64 (images ! i)) = Resolves t" and "readResponse JSON_parse t = Inr d"
  shows "extraction (exampleEnv reply) hs images w i = Inr d"
  unfolding extraction_def
  using first_answer [of "exampleEnv reply" _ "base64 (images ! i)" hs t d] assms
  by simp

lemma example_unreadable:
  assumes "reply (base64 (images ! i)) = Resolves t" and "readResponse JSON_parse t = Inl e"
    and "\<not> isRateLimit e"
  shows "extraction (exampleEnv reply) hs images w i = Inl (rethrow e)"
  unfolding extraction_def extractDataFromImage_def
  using retry_stop [of "exampleEnv reply" "base64 (images ! i)" hs _ e 0] assms
  by (simp add: tryBlock_def)

lemma threeImages_positions: "[0..<length threeImages] = [0, 1, 2]"
  by (simp add: threeImages_def upt_rec)

lemma threeImages_nth:
  "base64 (threeImages ! 0) = ''AAAA''" "base64 (threeImages ! Suc 0) = ''BBBB''"
  "base64 (threeImages ! 2) = ''CCCC''"
  "fileName (threeImages ! 0) = ''a.png''" "fileName (threeImages ! Suc 0) = ''b.png''"
  "fileName (threeImages ! 2) = ''c.png''"
  by (simp_all add: threeImages_def)

lemma readable_answer:
  \<open>readResponse JSON_parse (Some ''{"a":1}'') = Inr (JObj [(''a'', JNum (Finite 1))])\<close>
  by code_simp

lemma unreadable_answer:
  \<open>readResponse JSON_parse (Some ''Sorry, I cannot read this.'') =
     Inl (syntaxError (syntaxErrorMessage ''Sorry, I cannot read this.''))\<close>
  \<open>\<not> isRateLimit (syntaxError (syntaxErrorMessage ''Sorry, I cannot read this.''))\<close>
  by code_simp+

lemma secondUnreadable_run:
  "extraction (exampleEnv secondUnreadable) hs threeImages w 0 =
     Inr (JObj [(''a'', JNum (Finite 1))])"
  "isl (extraction (exampleEnv secondUnreadable) hs threeImages w (Suc 0))"
  "extraction (exampleEnv secondUnreadable) hs threeImages w 2 =
     Inr (JObj [(''a'', JNum (Finite 1))])"
proof -
  show "extraction (exampleEnv secondUnreadable) hs threeImages w 0 =
     Inr (JObj [(''a'', JNum (Finite 1))])"
    by (rule example_answer [OF _ readable_answer])
       (simp add: threeImages_nth secondUnreadable_def)
  show "extraction (exampleEnv secondUnreadable) hs threeImages w 2 =
     Inr (JObj [(''a'', JNum (Finite 1))])"
    by (rule example_answer [OF _ readable_answer])
       (simp add: threeImages_nth secondUnreadable_def)
  have "extraction (exampleEnv secondUnreadable) hs threeImages w (Suc 0) =
     Inl (rethrow (syntaxError (syntaxErrorMessage ''Sorry, I cannot read this.'')))"
    by (rule example_unreadable [OF _ unreadable_answer])
       (simp add: threeImages_nth secondUnreadable_def)
  then show "isl (extraction (exampleEnv secondUnreadable) hs threeImages w (Suc 0))"
    by simp
qed

lemma secondLimited_run:
  "\<not> isl (extraction (exampleEnv secondLimited) hs threeImages w 0)"
  "isl (extraction (exampleEnv secondLimited) hs threeImages w (Suc 0))"
  "\<not> isl (extraction (exampleEnv secondLimited) hs threeImages w 2)"
proof -
  have "extraction (exampleEnv secondLimited) hs threeImages w 0 =
     Inr (JObj [(''a'', JNum (Finite 1))])"
    by (rule example_answer [OF _ readable_answer])
       (simp add: threeImages_nth secondLimited_def)
  then show "\<not> isl (extraction (exampleEnv secondLimited) hs threeImages w 0)" by simp
  have "extraction (exampleEnv secondLimited) hs threeImages w 2 =
     Inr (JObj [(''a'', JNum (Finite 1))])"
    by (rule example_answer [OF _ readable_answer])
       (simp add: threeImages_nth secondLimited_def)
  then show "\<not> isl (extraction (exampleEnv secondLimited) hs threeImages w 2)" by simp
  have "extraction (exampleEnv secondLimited) hs threeImages w (Suc 0) = Inl (rethrow tooManyRequests)"
    by (rule example_limited [OF _ tooManyRequests_limited])
       (simp add: threeImages_nth secondLimited_def)
  then show "isl (extraction (exampleEnv secondLimited) hs threeImages w (Suc 0))" by simp
qed

subsection \<open>The claims about a batch\<close>

text \<open>
  C4. Whatever makes the extraction fail at some positions of the batch, the table gains
  one row for each of the other positions and none for the failing ones: the number of
  rows grows by the number of images minus the number of failing positions. Each image
  whose extraction succeeds has a row with its file name and the returned record, and
  every image of the batch is sent to the model, so no failure ends the batch early.
\<close>

theorem partial_failure_row_count:
  "length (rows (handleImagesSelected env headers images w)) =
     length (rows w) + (length images - length (failedAt env headers images w))
   \<and> (\<forall>i \<in> set (succeededAt env headers images w).
        \<exists>r \<in> set (drop (length (rows w)) (rows (handleImagesSelected env headers images w))).
          sourceImageName r = fileName (images ! i) \<and>
          Inr (data r) = extraction env headers images w i)
   \<and> (\<forall>i < length images.
        base64 (images ! i) \<in>
          set (requests (drop (length (log w)) (log (handleImagesSelected env headers images w)))))"
proof -
  let ?w' = "handleImagesSelected env headers images w"
  obtain new where new: "rows ?w' = rows w @ new"
    and names: "map (\<lambda>r. (sourceImageName r, data r)) new =
       map (\<lambda>i. (fileName (images ! i), projr (extraction env headers images w i)))
         (succeededAt env headers images w)"
    using new_rows by blast
  have "length new = length (succeededAt env headers images w)"
    using names by (metis length_map)
  then have count: "length (rows ?w') =
     length (rows w) + (length images - length (failedAt env headers images w))"
    using new failed_succeeded by simp
  have each: "\<exists>r \<in> set (drop (length (rows w)) (rows ?w')).
          sourceImageName r = fileName (images ! i) \<and>
          Inr (data r) = extraction env headers images w i"
    if i: "i \<in> set (succeededAt env headers images w)" for i
  proof -
    have "(fileName (images ! i), projr (extraction env headers images w i))
            \<in> set (map (\<lambda>r. (sourceImageName r, data r)) new)"
      using i names by simp
    then obtain r where r: "r \<in> set new" "sourceImageName r = fileName (images ! i)"
      "data r = projr (extraction env headers images w i)"
      by auto
    have "\<not> isl (extraction env headers images w i)"
      using i by (simp add: succeededAt_def)
    then have "Inr (data r) = extraction env headers images w i"
      using r(3) by (cases "extraction env headers images w i") simp_all
    then show ?thesis using r new by auto
  qed
  obtain L ks where L: "log ?w' = log w @ L"
    and len: "length ks = length images" and bound: "\<forall>n \<in> set ks. 1 \<le> n \<and> n \<le> 6"
    and req: "requests L = concat (map (\<lambda>(img, n). replicate n (base64 img)) (zip images ks))"
    using new_events by blast
  have sent: "base64 (images ! i) \<in> set (requests (drop (length (log w)) (log ?w')))"
    if i: "i < length images" for i
  proof -
    have "(images ! i, ks ! i) \<in> set (zip images ks)"
      using i len by (metis in_set_zip fst_conv snd_conv)
    moreover have "1 \<le> ks ! i" using bound i len by simp
    ultimately have "base64 (images ! i) \<in> set (requests L)"
      unfolding req by (fastforce intro!: bexI [of _ "(images ! i, ks ! i)"])
    then show ?thesis using L by simp
  qed
  show ?thesis using count each sent by blast
qed

theorem partial_failure_row_count_witness:
  \<open>length (rows (handleImagesSelected (exampleEnv secondLimited) [''date''] threeImages
             emptyWorld)) = 2
   \<and> failedAt (exampleEnv secondLimited) [''date''] threeImages emptyWorld = [1]\<close>
proof -
  have failed: \<open>failedAt (exampleEnv secondLimited) [''date''] threeImages emptyWorld = [1]\<close>
    by (simp add: failedAt_def threeImages_positions secondLimited_run)
  have three: "length threeImages = 3"
    by (simp add: threeImages_def)
  show ?thesis
    using partial_failure_row_count [of "exampleEnv secondLimited" "[''date'']" threeImages
        emptyWorld]
    by (simp add: failed emptyWorld_sel three)
qed

text \<open>
  C9. The rows that were in the table stay in front, and the rows of the batch follow in
  the order of the images whose extraction succeeded. The requests of the batch are, in
  this order, the requests for the first image (one to six of them), then those for the
  second, and so on: no request for an image is sent before the service has finished
  with the image before it. The model is sequential, as the code is, which awaits every
  call.
\<close>

theorem rows_and_requests_in_submission_order:
  "take (length (rows w)) (rows (handleImagesSelected env headers images w)) = rows w
   \<and> map (\<lambda>r. (sourceImageName r, data r))
        (drop (length (rows w)) (rows (handleImagesSelected env headers images w))) =
      map (\<lambda>i. (fileName (images ! i), projr (extraction env headers images w i)))
        (succeededAt env headers images w)
   \<and> (\<exists>ks. length ks = length images \<and> (\<forall>n \<in> set ks. 1 \<le> n \<and> n \<le> 6) \<and>
        requests (drop (length (log w)) (log (handleImagesSelected env headers images w))) =
          concat (map (\<lambda>(img, n). replicate n (base64 img)) (zip images ks)))"
proof -
  let ?w' = "handleImagesSelected env headers images w"
  obtain new where new: "rows ?w' = rows w @ new"
    and names: "map (\<lambda>r. (sourceImageName r, data r)) new =
       map (\<lambda>i. (fileName (images ! i), projr (extraction env headers images w i)))
         (succeededAt env headers images w)"
    using new_rows by blast
  obtain L ks where L: "log ?w' = log w @ L"
    and len: "length ks = length images" and bound: "\<forall>n \<in> set ks. 1 \<le> n \<and> n \<le> 6"
    and req: "requests L = concat (map (\<lambda>(img, n). replicate n (base64 img)) (zip images ks))"
    using new_events by blast
  have "requests (drop (length (log w)) (log ?w')) =
          concat (map (\<lambda>(img, n). replicate n (base64 img)) (zip images ks))"
    using L req by simp
  then show ?thesis using new names len bound by auto
qed

theorem rows_and_requests_in_submission_order_witness:
  \<open>map (\<lambda>r. (sourceImageName r, data r))
      (rows (handleImagesSelected (exampleEnv secondUnreadable) [''date''] threeImages
              emptyWorld)) =
     [(''a.png'', JObj [(''a'', JNum (Finite 1))]), (''c.png'', JObj [(''a'', JNum (Finite 1))])]\<close>
proof -
  have ok: \<open>succeededAt (exampleEnv secondUnreadable) [''date''] threeImages emptyWorld = [0, 2]\<close>
    by (simp add: succeededAt_def threeImages_positions secondUnreadable_run)
  show ?thesis
    using rows_and_requests_in_submission_order [of emptyWorld "exampleEnv secondUnreadable"
        "[''date'']" threeImages]
    by (simp add: ok secondUnreadable_run threeImages_nth emptyWorld_sel)
qed

text \<open>
  C7. For an empty batch the handler returns at once and changes nothing. Otherwise, when
  the loop is over, the status becomes SUCCESS if at least one extraction succeeded, with
  the message "Successfully processed p of n images" followed by " (f failed)" when
  f is positive, and ERROR if none succeeded. In both cases this status update is
  followed by one timer of 4000 ms that sets the status back to IDLE, and nothing else.
\<close>

theorem terminal_status_and_reset:
  "handleImagesSelected env headers images w =
     (if images = [] then w
      else (snd (snd (turnState env headers images w (length images))))
             \<lparr>processingState :=
                 (if length (succeededAt env headers images w) > 0
                  then \<lparr>status = SUCCESS,
                        message = Some (''Successfully processed ''
                          @ digits (length (succeededAt env headers images w))
                          @ '' of '' @ digits (length images) @ '' images''
                          @ (if length (failedAt env headers images w) > 0
                             then '' ('' @ digits (length (failedAt env headers images w))
                                    @ '' failed)''
                             else [])
                          @ ''.'')\<rparr>
                  else \<lparr>status = ERROR, message = Some ''Failed to process selected images.''\<rparr>),
               log := log (snd (snd (turnState env headers images w (length images))))
                 @ [SetProcessingState
                      (if length (succeededAt env headers images w) > 0
                       then \<lparr>status = SUCCESS,
                             message = Some (''Successfully processed ''
                               @ digits (length (succeededAt env headers images w))
                               @ '' of '' @ digits (length images) @ '' images''
                               @ (if length (failedAt env headers images w) > 0
                                  then '' ('' @ digits (length (failedAt env headers images w))
                                         @ '' failed)''
                                  else [])
                               @ ''.'')\<rparr>
                       else \<lparr>status = ERROR,
                             message = Some ''Failed to process selected images.''\<rparr>),
                    SetTimeout 4000 \<lparr>status = IDLE, message = None\<rparr>]\<rparr>)"
proof (cases rule: run_cases [of images env headers w])
  case empty
  then show ?thesis by simp
next
  case (run pc errs w2)
  have pc: "pc = length (succeededAt env headers images w)"
    using count_inv [of env headers images w "length images"] run(2)
    by (simp add: succeededAt_def)
  have errs: "length errs = length (failedAt env headers images w)"
    using errors_inv [of env headers images w "length images"] run(2)
    by (simp add: failedAt_def)
  show ?thesis
    using run by (simp add: pc errs finalState_def successMessage_def idleState_def)
qed

theorem terminal_status_and_reset_witness:
  \<open>processingState (handleImagesSelected (exampleEnv secondUnreadable) [''date''] threeImages
      emptyWorld) =
     \<lparr>status = SUCCESS, message = Some ''Successfully processed 2 of 3 images (1 failed).''\<rparr>
   \<and> processingState (handleImagesSelected (exampleEnv (\<lambda>b. Rejects tooManyRequests)) [''date'']
      threeImages emptyWorld) =
     \<lparr>status = ERROR, message = Some ''Failed to process selected images.''\<rparr>\<close>
proof -
  have ok: \<open>succeededAt (exampleEnv secondUnreadable) [''date''] threeImages emptyWorld = [0, 2]\<close>
    by (simp add: succeededAt_def threeImages_positions secondUnreadable_run)
  have bad: \<open>failedAt (exampleEnv secondUnreadable) [''date''] threeImages emptyWorld = [1]\<close>
    by (simp add: failedAt_def threeImages_positions secondUnreadable_run)
  have "isl (extraction (exampleEnv (\<lambda>b. Rejects tooManyRequests)) [''date''] threeImages
                 emptyWorld i)" for i
    using example_limited [of "\<lambda>b. Rejects tooManyRequests" threeImages i tooManyRequests,
        OF _ tooManyRequests_limited]
    by simp
  then have none: \<open>succeededAt (exampleEnv (\<lambda>b. Rejects tooManyRequests)) [''date''] threeImages
                 emptyWorld = []\<close>
    by (simp add: succeededAt_def)
  have d: \<open>digits 1 = ''1''\<close> \<open>digits 2 = ''2''\<close> \<open>digits 3 = ''3''\<close>
    by code_simp+
  have d': \<open>digits (Suc 0) = ''1''\<close> \<open>digits (Suc (Suc 0)) = ''2''\<close>
    using d by (simp_all add: numeral_2_eq_2)
  have three: "length threeImages = 3" "threeImages \<noteq> []"
    by (simp_all add: threeImages_def)
  have success: \<open>processingState (handleImagesSelected (exampleEnv secondUnreadable) [''date'']
      threeImages emptyWorld) =
     \<lparr>status = SUCCESS, message = Some ''Successfully processed 2 of 3 images (1 failed).''\<rparr>\<close>
    by (subst terminal_status_and_reset) (simp add: ok bad d d' three)
  have failure: \<open>processingState (handleImagesSelected (exampleEnv (\<lambda>b. Rejects tooManyRequests))
      [''date''] threeImages emptyWorld) =
     \<lparr>status = ERROR, message = Some ''Failed to process selected images.''\<rparr>\<close>
    by (subst terminal_status_and_reset) (simp add: none three)
  show ?thesis using success failure by (rule conjI)
qed

text \<open>
  C8. The loop goes through the turns \<open>0, \<dots>, n - 1\<close>. At the end of the turn of image
  \<open>i\<close>, whatever the extraction gave, the loop adds one wait of 5000 ms if \<open>i\<close> is not
  the last position, and nothing if it is. These are the only waits of 5000 ms of the
  whole run: there are \<open>n - 1\<close> of them.
\<close>

theorem throttle_between_images:
  "forLoop env headers images 0 (0, [], startProcessing images w) =
     turnState env headers images w (length images)
   \<and> (\<forall>i < length images.
        log (snd (snd (turnState env headers images w (Suc i)))) =
          log (snd (snd (processImage env headers images i (turnState env headers images w i))))
            @ (if i < length images - 1 then [Wait 5000] else []))
   \<and> count_list (drop (length (log w)) (log (handleImagesSelected env headers images w)))
        (Wait 5000) = length images - 1"
proof -
  have step: "log (snd (snd (turnState env headers images w (Suc i)))) =
          log (snd (snd (processImage env headers images i (turnState env headers images w i))))
            @ (if i < length images - 1 then [Wait 5000] else [])" for i
    by (simp add: turnState_def loopBody_def split: prod.splits)
  obtain L ks where L: "log (handleImagesSelected env headers images w) = log w @ L"
    and cnt: "count_list L (Wait 5000) = length images - 1"
    using new_events by blast
  show ?thesis
    using step forLoop_turnState L cnt by simp
qed

theorem throttle_between_images_witness:
  \<open>count_list (log (handleImagesSelected (exampleEnv secondUnreadable) [''date''] threeImages
      emptyWorld)) (Wait 5000) = 2
   \<and> log (snd (snd (turnState (exampleEnv secondUnreadable) [''date''] threeImages emptyWorld 2))) =
       log (snd (snd (processImage (exampleEnv secondUnreadable) [''date''] threeImages 1
         (turnState (exampleEnv secondUnreadable) [''date''] threeImages emptyWorld 1))))
       @ [Wait 5000]
   \<and> isl (extraction (exampleEnv secondUnreadable) [''date''] threeImages emptyWorld 1)\<close>
proof -
  have three: "length threeImages = 3"
    by (simp add: threeImages_def)
  have all: "count_list (drop (length (log emptyWorld))
               (log (handleImagesSelected (exampleEnv secondUnreadable) [''date''] threeImages
                  emptyWorld))) (Wait 5000) = length threeImages - 1"
    and each: "\<forall>i < length threeImages.
        log (snd (snd (turnState (exampleEnv secondUnreadable) [''date''] threeImages emptyWorld
               (Suc i)))) =
          log (snd (snd (processImage (exampleEnv secondUnreadable) [''date''] threeImages i
                (turnState (exampleEnv secondUnreadable) [''date''] threeImages emptyWorld i))))
            @ (if i < length threeImages - 1 then [Wait 5000] else [])"
    using throttle_between_images [of "exampleEnv secondUnreadable" "[''date'']" threeImages
        emptyWorld]
    by blast+
  have a: \<open>count_list (log (handleImagesSelected (exampleEnv secondUnreadable) [''date'']
             threeImages emptyWorld)) (Wait 5000) = 2\<close>
    using all by (simp add: three emptyWorld_sel)
  have b: \<open>log (snd (snd (turnState (exampleEnv secondUnreadable) [''date''] threeImages
                  emptyWorld 2))) =
       log (snd (snd (processImage (exampleEnv secondUnreadable) [''date''] threeImages 1
         (turnState (exampleEnv secondUnreadable) [''date''] threeImages emptyWorld 1))))
       @ [Wait 5000]\<close>
    using each [rule_format, of "Suc 0"] by (simp add: three numeral_2_eq_2)
  have c: \<open>isl (extraction (exampleEnv secondUnreadable) [''date''] threeImages emptyWorld 1)\<close>
    using secondUnreadable_run(2) by simp
  show ?thesis using a b c by blast
qed

subsection \<open>The keys of a row\<close>

text \<open>
  C3, as amended. The column list only goes into the prompt. Take any response that the
  service receives, the first one or the one that follows \<open>k\<close> retried passes. When it
  parses to an object, the service returns this object with all its keys, whether or
  not they are in the column list. And in every batch, when this is the call made for
  the image at position \<open>i\<close>, the table gains a row for that image which stores the
  object unchanged.
\<close>

theorem record_keeps_model_keys:
  assumes "k \<le> 5"
    and "\<forall>j<k. retriedAt env base64Image headers (length (log w) + 2 * j)"
    and "generateContent env (length (log w) + 2 * k) base64Image headers =
           Resolves (Some text)"
    and "text \<noteq> []"
    and "jsonParse env (cleanText text) = Inr (JObj kvs)"
  shows "extractDataFromImage env base64Image headers w =
           (Inr (JObj kvs), w\<lparr>log := log w @ backoffEvents base64Image headers 0 k\<rparr>)
         \<and> (\<forall>images w0 i.
               i < length images \<and> base64 (images ! i) = base64Image \<and>
               announce images i (snd (snd (turnState env headers images w0 i))) = w
               \<longrightarrow> (\<exists>r \<in> set (drop (length (rows w0))
                                (rows (handleImagesSelected env headers images w0))).
                      sourceImageName r = fileName (images ! i) \<and> data r = JObj kvs))"
proof -
  have parsed: "readResponse (jsonParse env) (Some text) = Inr (JObj kvs)"
    using assms(4,5) by (simp add: readResponse_def)
  have service: "extractDataFromImage env base64Image headers w =
           (Inr (JObj kvs), w\<lparr>log := log w @ backoffEvents base64Image headers 0 k\<rparr>)"
    by (rule response_after_retries [OF assms(1-3) parsed])
  have row: "\<exists>r \<in> set (drop (length (rows w0))
                                (rows (handleImagesSelected env headers images w0))).
                      sourceImageName r = fileName (images ! i) \<and> data r = JObj kvs"
    if i: "i < length images" and b: "base64 (images ! i) = base64Image"
      and w: "announce images i (snd (snd (turnState env headers images w0 i))) = w"
    for images w0 i
  proof -
    have ex: "extraction env headers images w0 i = Inr (JObj kvs)"
      unfolding extraction_def b w by (simp add: service)
    then have "i \<in> set (succeededAt env headers images w0)"
      using i by (simp add: succeededAt_def)
    then show ?thesis
      using row_of_success [of i env headers images w0] ex by auto
  qed
  show ?thesis using service row by blast
qed

theorem record_keeps_model_keys_witness:
  \<open>\<exists>r \<in> set (rows (handleImagesSelected
                    (lateAnswer 4 ''{"date":"2024-05-01","total":12}'')
                    [''date'', ''total''] oneImage emptyWorld)).
      sourceImageName r = ''a.png'' \<and>
      data r = JObj [(''date'', JStr ''2024-05-01''), (''total'', JNum (Finite 12))]\<close>
proof -
  let ?E = \<open>lateAnswer 4 ''{"date":"2024-05-01","total":12}''\<close>
  let ?hs = \<open>[''date'', ''total'']\<close>
  let ?kvs = \<open>[(''date'', JStr ''2024-05-01''), (''total'', JNum (Finite 12))]\<close>
  define w where "w = announce oneImage 0 (snd (snd (turnState ?E ?hs oneImage emptyWorld 0)))"
  have len: "length (log w) = 2"
    by (simp add: w_def emptyWorld_sel startProcessing_def)
  have parsed: \<open>jsonParse ?E (cleanText ''{"date":"2024-05-01","total":12}'') = Inr (JObj ?kvs)\<close>
    unfolding lateAnswer_sel by code_simp
  have retried: "\<forall>j<1. retriedAt ?E ''AAAA'' ?hs (length (log w) + 2 * j)"
    by (simp add: len lateAnswer_retried)
  have answered: \<open>generateContent ?E (length (log w) + 2 * 1) ''AAAA'' ?hs =
                    Resolves (Some ''{"date":"2024-05-01","total":12}'')\<close>
    by (simp add: len)
  have "\<forall>images w0 i.
               i < length images \<and> base64 (images ! i) = ''AAAA'' \<and>
               announce images i (snd (snd (turnState ?E ?hs images w0 i))) = w
               \<longrightarrow> (\<exists>r \<in> set (drop (length (rows w0))
                                (rows (handleImagesSelected ?E ?hs images w0))).
                      sourceImageName r = fileName (images ! i) \<and> data r = JObj ?kvs)"
    using record_keeps_model_keys [of 1 ?E "''AAAA''" ?hs w
        \<open>''{"date":"2024-05-01","total":12}''\<close> ?kvs, OF _ retried answered _ parsed]
    by simp
  then have "0 < length oneImage \<and> base64 (oneImage ! 0) = ''AAAA'' \<and>
               announce oneImage 0 (snd (snd (turnState ?E ?hs oneImage emptyWorld 0))) = w
               \<longrightarrow> (\<exists>r \<in> set (drop (length (rows emptyWorld))
                                (rows (handleImagesSelected ?E ?hs oneImage emptyWorld))).
                      sourceImageName r = fileName (oneImage ! 0) \<and> data r = JObj ?kvs)"
    by blast
  moreover have "0 < length oneImage" "base64 (oneImage ! 0) = ''AAAA''"
    "fileName (oneImage ! 0) = ''a.png''"
    by (simp_all add: oneImage_def)
  ultimately show ?thesis
    by (simp add: w_def emptyWorld_sel)
qed

text \<open>
  The claim as stated fails when the model adds a key: with the single column \<open>date\<close>
  and a response that also has the key \<open>extra\<close>, the returned record has a key outside
  the column list.
\<close>

theorem record_keys_counterexample:
  \<open>fst (extractDataFromImage
          (exampleEnv (\<lambda>b. Resolves (Some ''{"date":"2024-05-01","extra":1}'')))
          ''AAAA'' [''date''] emptyWorld) =
      Inr (JObj [(''date'', JStr ''2024-05-01''), (''extra'', JNum (Finite 1))])
   \<and> \<not> keys (JObj [(''date'', JStr ''2024-05-01''), (''extra'', JNum (Finite 1))])
          \<subseteq> set [''date'']\<close>
proof -
  have parsed: \<open>readResponse JSON_parse (Some ''{"date":"2024-05-01","extra":1}'') =
                  Inr (JObj [(''date'', JStr ''2024-05-01''), (''extra'', JNum (Finite 1))])\<close>
    by code_simp
  have \<open>extractDataFromImage
          (exampleEnv (\<lambda>b. Resolves (Some ''{"date":"2024-05-01","extra":1}'')))
          ''AAAA'' [''date''] emptyWorld =
        (Inr (JObj [(''date'', JStr ''2024-05-01''), (''extra'', JNum (Finite 1))]),
         emit (GenerateContent ''AAAA'' [''date'']) emptyWorld)\<close>
    by (rule first_answer [of _ _ _ _ \<open>Some ''{"date":"2024-05-01","extra":1}''\<close>])
       (simp_all add: parsed)
  then show ?thesis by simp
qed

end
